theory Spec2Isabelle
  imports Complex_Main "HOL-Library.Log_Nat"
begin

section \<open>Data model\<close>

text \<open>
  The notebooks are Python cells. Exceptions are values: a call that can raise returns
  \<open>error + result\<close>, with \<open>Inl\<close> for the exception. The exceptions Python itself
  and NumPy raise in the modelled code are listed here; an exception of the quantum
  runtime, or of the arithmetic of the elements a function is applied to, has an
  abstract type \<open>'e\<close> of its own.
\<close>

datatype py_error = ValueError | ZeroDivisionError | OverflowError

text \<open>
  A two-dimensional array is the list of its rows (axis 0 first), as
  \<^verbatim>\<open>parameters[i]\<close> and \<^verbatim>\<open>xi[i][j,:]\<close> read it. The entries are Python floats; the
  driver code only moves them around, so their type is a parameter \<open>'a\<close>.
\<close>

type_synonym 'a array2 = "'a list list"

section \<open>Lab 2 (PennyLane): the loss and the accuracy\<close>

text \<open>
  The two functions are written for any elements that support \<^verbatim>\<open>-\<close>, \<^verbatim>\<open>**\<close>, \<^verbatim>\<open>+\<close>,
  \<^verbatim>\<open>/\<close>, \<^verbatim>\<open>abs\<close> and \<^verbatim>\<open><\<close>: the notebook calls them on PennyLane tensors (\<^verbatim>\<open>Y\<close>, the
  outputs of the classifier, autograd boxes while the cost is differentiated), and
  they run as well on Python floats or fractions. The arithmetic is the elements'
  own, rounding and exceptions included (a Python float raises \<open>OverflowError\<close> from
  \<^verbatim>\<open>** 2\<close>, a NumPy float returns \<open>inf\<close>), so it enters as a parameter: one function for
  each operation the two functions apply to an element, returning the element's
  exception \<open>'e\<close> or the result.
  \<^item> \<open>el_sub A l p\<close> is \<^verbatim>\<open>l - p\<close>;
  \<^item> \<open>el_square A d\<close> is \<^verbatim>\<open>d ** 2\<close>;
  \<^item> \<open>el_add_int0 A q\<close> is \<^verbatim>\<open>0 + q\<close>, the first \<^verbatim>\<open>loss += \<dots>\<close>, on the integer 0;
  \<^item> \<open>el_add A x q\<close> is \<^verbatim>\<open>x + q\<close>, every later \<^verbatim>\<open>loss += \<dots>\<close>;
  \<^item> \<open>el_div A x n\<close> is \<^verbatim>\<open>x / n\<close> for the integer \<open>n = len(labels)\<close>;
  \<^item> \<open>el_abs A d\<close> is \<^verbatim>\<open>abs(d)\<close>;
  \<^item> \<open>el_below_tol A a\<close> is the truth value of \<^verbatim>\<open>a < 1e-5\<close>, as \<^verbatim>\<open>if\<close> reads it.
\<close>

record ('x, 'e) arith =
  el_sub :: "'x \<Rightarrow> 'x \<Rightarrow> 'e + 'x"
  el_square :: "'x \<Rightarrow> 'e + 'x"
  el_add_int0 :: "'x \<Rightarrow> 'e + 'x"
  el_add :: "'x \<Rightarrow> 'x \<Rightarrow> 'e + 'x"
  el_div :: "'x \<Rightarrow> nat \<Rightarrow> 'e + 'x"
  el_abs :: "'x \<Rightarrow> 'e + 'x"
  el_below_tol :: "'x \<Rightarrow> 'e + bool"

text \<open>
  An exception leaving one of the two functions is raised by Python's own integer
  division or by an operation of the elements.
\<close>

datatype 'e raised = ByPython py_error | ByElement 'e

text \<open>
  \<^verbatim>\<open>
  def square_loss(labels, predictions):
      loss = 0
      for l, p in zip(labels, predictions):
          loss += (l - p) ** 2

      loss /= len(labels)
      return loss
  \<close>
  The loop runs over \<open>zip labels predictions\<close>, which stops at the shorter sequence.
  The variable \<open>loss\<close> is the integer 0 (\<open>None\<close>) until the first addition and an
  element (\<open>Some x\<close>) from then on. The division is the elements' when the loop has
  run; otherwise it is \<^verbatim>\<open>0 / len(labels)\<close> on integers, which raises
  \<open>ZeroDivisionError\<close> when \<open>labels\<close> is empty and is the float 0.0 otherwise.
\<close>

datatype 'x loss_value = FloatZero | Elem 'x

definition squared_difference :: "('x, 'e) arith \<Rightarrow> 'x \<Rightarrow> 'x \<Rightarrow> 'e + 'x" where
  "squared_difference A l p =
     (case el_sub A l p of Inl e \<Rightarrow> Inl e | Inr d \<Rightarrow> el_square A d)"

definition accumulate :: "('x, 'e) arith \<Rightarrow> 'x option \<Rightarrow> 'x \<Rightarrow> 'e + 'x option" where
  "accumulate A loss q =
     (case (case loss of None \<Rightarrow> el_add_int0 A q | Some x \<Rightarrow> el_add A x q) of
        Inl e \<Rightarrow> Inl e
      | Inr y \<Rightarrow> Inr (Some y))"

definition truediv_len :: "('x, 'e) arith \<Rightarrow> 'x option \<Rightarrow> nat \<Rightarrow> 'e raised + 'x loss_value" where
  "truediv_len A loss n =
     (case loss of
        None \<Rightarrow> if n = 0 then Inl (ByPython ZeroDivisionError) else Inr FloatZero
      | Some x \<Rightarrow> (case el_div A x n of Inl e \<Rightarrow> Inl (ByElement e) | Inr y \<Rightarrow> Inr (Elem y)))"

fun square_loss_loop ::
  "('x, 'e) arith \<Rightarrow> ('x \<times> 'x) list \<Rightarrow> 'x option \<Rightarrow> 'e + 'x option" where
  "square_loss_loop A [] loss = Inr loss"
| "square_loss_loop A ((l, p) # zs) loss =
     (case squared_difference A l p of
        Inl e \<Rightarrow> Inl e
      | Inr q \<Rightarrow>
          (case accumulate A loss q of
             Inl e \<Rightarrow> Inl e
           | Inr loss' \<Rightarrow> square_loss_loop A zs loss'))"

definition square_loss :: "('x, 'e) arith \<Rightarrow> 'x list \<Rightarrow> 'x list \<Rightarrow> 'e raised + 'x loss_value" where
  "square_loss A labels predictions =
     (case square_loss_loop A (zip labels predictions) None of
        Inl e \<Rightarrow> Inl (ByElement e)
      | Inr loss \<Rightarrow> truediv_len A loss (length labels))"

text \<open>
  \<^verbatim>\<open>
  def accuracy(labels, predictions):

      loss = 0
      for l, p in zip(labels, predictions):
          if abs(l - p) < 1e-5:
              loss += 1
      loss /= len(labels)

      return loss
  \<close>
  Here \<open>loss\<close> is an integer until the division, which is therefore Python's true
  division of two integers (\<^verbatim>\<open>long_true_divide\<close> in CPython's \<^verbatim>\<open>longobject.c\<close>, not part
  of the repository): \<open>ZeroDivisionError\<close> for a zero divisor, otherwise the double
  nearest to the exact quotient, ties to the even significand, and \<open>OverflowError\<close>
  when that is not finite. A double is given by the number it stands for. For a
  quotient \<open>a / b\<close> of positive integers with \<open>2\<^sup>e \<le> a / b < 2\<^sup>e\<^sup>+\<^sup>1\<close> the doubles nearby are
  the multiples of \<open>2\<^sup>p\<close>, \<open>p = max (e - 52) (- 1074)\<close> (53 significant bits, subnormal
  below \<open>2\<^sup>-\<^sup>1\<^sup>0\<^sup>2\<^sup>2\<close>), so the result is \<open>a / (b * 2\<^sup>p)\<close> rounded to an integer, times
  \<open>2\<^sup>p\<close>.
\<close>

definition round_half_even :: "int \<Rightarrow> int \<Rightarrow> int" where
  "round_half_even a b =
     (let q = a div b; r = a mod b
      in if 2 * r < b then q else if b < 2 * r then q + 1 else if even q then q else q + 1)"

definition quotient_exponent :: "int \<Rightarrow> int \<Rightarrow> int" where
  "quotient_exponent a b =
     (if b \<le> a then bitlen (a div b) - 1 else - bitlen ((b - 1) div a))"

definition int_true_divide :: "int \<Rightarrow> int \<Rightarrow> py_error + real" where
  "int_true_divide c n =
     (if n = 0 then Inl ZeroDivisionError
      else if c = 0 then Inr 0
      else
        let a = \<bar>c\<bar>; b = \<bar>n\<bar>;
            e = quotient_exponent a b;
            p = max (e - 52) (- 1074);
            m = (if 0 \<le> p then round_half_even a (b * 2 ^ nat p)
                 else round_half_even (a * 2 ^ nat (- p)) b);
            r = real_of_int m * 2 powi p
        in if 2 ^ 1024 \<le> r then Inl OverflowError
           else Inr (real_of_int (sgn c * sgn n) * r))"

definition within_tolerance :: "('x, 'e) arith \<Rightarrow> 'x \<Rightarrow> 'x \<Rightarrow> 'e + bool" where
  "within_tolerance A l p =
     (case el_sub A l p of
        Inl e \<Rightarrow> Inl e
      | Inr d \<Rightarrow> (case el_abs A d of Inl e \<Rightarrow> Inl e | Inr a \<Rightarrow> el_below_tol A a))"

fun accuracy_loop :: "('x, 'e) arith \<Rightarrow> ('x \<times> 'x) list \<Rightarrow> nat \<Rightarrow> 'e + nat" where
  "accuracy_loop A [] loss = Inr loss"
| "accuracy_loop A ((l, p) # zs) loss =
     (case within_tolerance A l p of
        Inl e \<Rightarrow> Inl e
      | Inr b \<Rightarrow> accuracy_loop A zs (if b then loss + 1 else loss))"

definition accuracy :: "('x, 'e) arith \<Rightarrow> 'x list \<Rightarrow> 'x list \<Rightarrow> 'e raised + real" where
  "accuracy A labels predictions =
     (case accuracy_loop A (zip labels predictions) 0 of
        Inl e \<Rightarrow> Inl (ByElement e)
      | Inr loss \<Rightarrow>
          (case int_true_divide (int loss) (int (length labels)) of
             Inl e \<Rightarrow> Inl (ByPython e)
           | Inr a \<Rightarrow> Inr a))"

text \<open>
  The reading of the two functions in words, by index position rather than by the
  loop. \<open>all_values\<close> is the first exception of a list of outcomes, or all their
  values; \<open>sum_in_order\<close> adds the values from the left, as the loop does (the
  elements' addition need not be associative).
\<close>

fun all_values :: "('e + 'x) list \<Rightarrow> 'e + 'x list" where
  "all_values [] = Inr []"
| "all_values (r # rs) =
     (case r of
        Inl e \<Rightarrow> Inl e
      | Inr x \<Rightarrow> (case all_values rs of Inl e \<Rightarrow> Inl e | Inr xs \<Rightarrow> Inr (x # xs)))"

fun sum_in_order :: "('x, 'e) arith \<Rightarrow> 'x option \<Rightarrow> 'x list \<Rightarrow> 'e + 'x option" where
  "sum_in_order A acc [] = Inr acc"
| "sum_in_order A acc (q # qs) =
     (case accumulate A acc q of Inl e \<Rightarrow> Inl e | Inr acc' \<Rightarrow> sum_in_order A acc' qs)"

definition squares_by_index :: "('x, 'e) arith \<Rightarrow> 'x list \<Rightarrow> 'x list \<Rightarrow> ('e + 'x) list" where
  "squares_by_index A labels predictions =
     map (\<lambda>i. squared_difference A (labels ! i) (predictions ! i))
       [0..<min (length labels) (length predictions)]"

definition mean_of_squares :: "('x, 'e) arith \<Rightarrow> 'x list \<Rightarrow> 'x list \<Rightarrow> 'e raised + 'x loss_value" where
  "mean_of_squares A labels predictions =
     (case all_values (squares_by_index A labels predictions) of
        Inl e \<Rightarrow> Inl (ByElement e)
      | Inr qs \<Rightarrow>
          (case sum_in_order A None qs of
             Inl e \<Rightarrow> Inl (ByElement e)
           | Inr tot \<Rightarrow> truediv_len A tot (length labels)))"

definition matches :: "('x, 'e) arith \<Rightarrow> 'x list \<Rightarrow> 'x list \<Rightarrow> nat" where
  "matches A labels predictions =
     length (filter (\<lambda>(l, p). within_tolerance A l p = Inr True) (zip labels predictions))"

definition tests_by_index :: "('x, 'e) arith \<Rightarrow> 'x list \<Rightarrow> 'x list \<Rightarrow> ('e + bool) list" where
  "tests_by_index A labels predictions =
     map (\<lambda>i. within_tolerance A (labels ! i) (predictions ! i))
       [0..<min (length labels) (length predictions)]"

definition fraction_matched :: "('x, 'e) arith \<Rightarrow> 'x list \<Rightarrow> 'x list \<Rightarrow> 'e raised + real" where
  "fraction_matched A labels predictions =
     (case all_values (tests_by_index A labels predictions) of
        Inl e \<Rightarrow> Inl (ByElement e)
      | Inr bs \<Rightarrow>
          (case int_true_divide (int (length (filter (\<lambda>b. b) bs))) (int (length labels)) of
             Inl e \<Rightarrow> Inl (ByPython e)
           | Inr a \<Rightarrow> Inr a))"

text \<open>
  Two arithmetics to run the functions on. \<open>exact_arith\<close> is exact arithmetic on
  numbers, as Python's \<^verbatim>\<open>fractions.Fraction\<close> has it: no operation rounds, only a
  division by zero raises, and \<^verbatim>\<open>a < 1e-5\<close> compares with the number the float literal
  \<^verbatim>\<open>1e-5\<close> stands for, \<open>5902958103587057 / 2\<^sup>6\<^sup>9\<close>. \<open>bounded_arith bound\<close> differs in
  that a square above \<open>bound\<close> raises, as the square of a Python float does above
  the largest double.
\<close>

definition double_1e_5 :: real where
  "double_1e_5 = 5902958103587057 / 2 ^ 69"

definition exact_arith :: "(real, string) arith" where
  "exact_arith =
     \<lparr>el_sub = (\<lambda>l p. Inr (l - p)), el_square = (\<lambda>d. Inr (d ^ 2)),
      el_add_int0 = (\<lambda>q. Inr (0 + q)), el_add = (\<lambda>x q. Inr (x + q)),
      el_div = (\<lambda>x n. if n = 0 then Inl ''ZeroDivisionError'' else Inr (x / real n)),
      el_abs = (\<lambda>d. Inr \<bar>d\<bar>),
      el_below_tol = (\<lambda>a. Inr (a < double_1e_5))\<rparr>"

definition bounded_arith :: "real \<Rightarrow> (real, string) arith" where
  "bounded_arith bound =
     exact_arith\<lparr>el_square := (\<lambda>d. if bound < d ^ 2 then Inl ''OverflowError'' else Inr (d ^ 2))\<rparr>"

text \<open>
  Python floats, to run the functions on the elements a plain call has. A float is
  an IEEE 754 double: \<open>Fin m e\<close> stands for the number \<open>m * 2\<^sup>e\<close>, beside the two
  infinities and NaN (the two zeros are not told apart: no operation below depends
  on the sign of a zero). \<open>round_scaled M e\<close> is the double nearest to \<open>M * 2\<^sup>e\<close>, ties
  to the even significand, an infinity beyond the largest double;
  \<open>round_quotient a b k\<close> is the same for \<open>(a / b) * 2\<^sup>k\<close> with \<open>b\<close> positive.
\<close>

datatype pyfloat = Fin int int | PosInf | NegInf | NaN

definition signed_inf :: "int \<Rightarrow> pyfloat" where
  "signed_inf s = (if 0 < s then PosInf else NegInf)"

definition round_scaled :: "int \<Rightarrow> int \<Rightarrow> pyfloat" where
  "round_scaled M e =
     (if M = 0 then Fin 0 0
      else
        let a = \<bar>M\<bar>;
            p = max (bitlen a - 1 + e - 52) (- 1074);
            m = (if p \<le> e then a * 2 ^ nat (e - p) else round_half_even a (2 ^ nat (p - e)))
        in if 1024 < bitlen m + p then signed_inf M else Fin (sgn M * m) p)"

definition round_quotient :: "int \<Rightarrow> int \<Rightarrow> int \<Rightarrow> pyfloat" where
  "round_quotient a b k =
     (if a = 0 then Fin 0 0
      else
        let p = max (quotient_exponent \<bar>a\<bar> b + k - 52) (- 1074);
            m = (if p \<le> k then round_half_even (\<bar>a\<bar> * 2 ^ nat (k - p)) b
                 else round_half_even \<bar>a\<bar> (b * 2 ^ nat (p - k)))
        in if 1024 < bitlen m + p then signed_inf a else Fin (sgn a * m) p)"

text \<open>
  The operations are those of CPython's \<^verbatim>\<open>floatobject.c\<close>: \<^verbatim>\<open>-\<close>, \<^verbatim>\<open>+\<close> and \<^verbatim>\<open>/\<close> are
  the IEEE operations and do not raise on overflow; \<^verbatim>\<open>x / n\<close> first converts the
  integer \<open>n\<close> to a float and raises \<open>ZeroDivisionError\<close> for zero; \<^verbatim>\<open>d ** 2\<close> is the C
  library's \<^verbatim>\<open>pow(d, 2.0)\<close>, taken here as the rounded square, and raises \<open>OverflowError\<close>
  when the square of a finite \<open>d\<close> is beyond the largest double; a comparison with
  NaN is false.
\<close>

fun float_neg :: "pyfloat \<Rightarrow> pyfloat" where
  "float_neg (Fin m e) = Fin (- m) e"
| "float_neg PosInf = NegInf"
| "float_neg NegInf = PosInf"
| "float_neg NaN = NaN"

fun float_add :: "pyfloat \<Rightarrow> pyfloat \<Rightarrow> pyfloat" where
  "float_add (Fin m1 e1) (Fin m2 e2) =
     (let e = min e1 e2 in round_scaled (m1 * 2 ^ nat (e1 - e) + m2 * 2 ^ nat (e2 - e)) e)"
| "float_add NaN y = NaN"
| "float_add x NaN = NaN"
| "float_add PosInf NegInf = NaN"
| "float_add NegInf PosInf = NaN"
| "float_add PosInf y = PosInf"
| "float_add NegInf y = NegInf"
| "float_add x PosInf = PosInf"
| "float_add x NegInf = NegInf"

definition float_sub :: "pyfloat \<Rightarrow> pyfloat \<Rightarrow> pyfloat" where
  "float_sub x y = float_add x (float_neg y)"

fun float_square :: "pyfloat \<Rightarrow> py_error + pyfloat" where
  "float_square (Fin m e) =
     (case round_scaled (m * m) (2 * e) of
        Fin m' e' \<Rightarrow> Inr (Fin m' e')
      | _ \<Rightarrow> Inl OverflowError)"
| "float_square NaN = Inr NaN"
| "float_square x = Inr PosInf"

fun float_div_int :: "pyfloat \<Rightarrow> nat \<Rightarrow> py_error + pyfloat" where
  "float_div_int x n =
     (case round_scaled (int n) 0 of
        Fin mb eb \<Rightarrow>
          if mb = 0 then Inl ZeroDivisionError
          else Inr (case x of Fin m e \<Rightarrow> round_quotient m mb (e - eb) | _ \<Rightarrow> x)
      | _ \<Rightarrow> Inl OverflowError)"

fun float_abs :: "pyfloat \<Rightarrow> pyfloat" where
  "float_abs (Fin m e) = Fin \<bar>m\<bar> e"
| "float_abs NaN = NaN"
| "float_abs x = PosInf"

fun float_below_1e_5 :: "pyfloat \<Rightarrow> bool" where
  "float_below_1e_5 (Fin m e) =
     (let k = min e (- 69) in m * 2 ^ nat (e - k) < 5902958103587057 * 2 ^ nat (- 69 - k))"
| "float_below_1e_5 NegInf = True"
| "float_below_1e_5 x = False"

definition py_float_arith :: "(pyfloat, py_error) arith" where
  "py_float_arith =
     \<lparr>el_sub = (\<lambda>l p. Inr (float_sub l p)), el_square = float_square,
      el_add_int0 = (\<lambda>q. Inr q), el_add = (\<lambda>x q. Inr (float_add x q)),
      el_div = float_div_int, el_abs = (\<lambda>d. Inr (float_abs d)),
      el_below_tol = (\<lambda>a. Inr (float_below_1e_5 a))\<rparr>"

section \<open>NumPy's split, as the batching cell calls it\<close>

text \<open>
  \<^verbatim>\<open>xi = np.split(parameters, 4)\<close> calls NumPy, which is not part of the repository.
  The definitions follow NumPy's \<^verbatim>\<open>numpy/lib/shape_base.py\<close> for an integer number of
  sections and axis 0:
  \<^verbatim>\<open>
  def split(ary, indices_or_sections, axis=0):
      sections = indices_or_sections
      N = ary.shape[axis]
      if N % sections:
          raise ValueError('array split does not result in an equal division')
      return array_split(ary, indices_or_sections, axis)

  def array_split(ary, indices_or_sections, axis=0):
      Ntotal = ary.shape[axis]
      Nsections = int(indices_or_sections)
      if Nsections <= 0:
          raise ValueError('number sections must be larger than 0.')
      Neach_section, extras = divmod(Ntotal, Nsections)
      section_sizes = ([0] + extras * [Neach_section+1] +
                       (Nsections-extras) * [Neach_section])
      div_points = array(section_sizes).cumsum()
      sub_arys = []
      for i in range(Nsections):
          st = div_points[i]
          end = div_points[i + 1]
          sub_arys.append(ary[st:end])
      return sub_arys
  \<close>
  The number of sections is a natural number here (the notebook passes 4); with 0
  sections \<^verbatim>\<open>N % sections\<close> raises \<open>ZeroDivisionError\<close>.
\<close>

fun cumsum_from :: "nat \<Rightarrow> nat list \<Rightarrow> nat list" where
  "cumsum_from acc [] = []"
| "cumsum_from acc (x # xs) = (acc + x) # cumsum_from (acc + x) xs"

definition cumsum :: "nat list \<Rightarrow> nat list" where
  "cumsum xs = cumsum_from 0 xs"

definition slice :: "'a list \<Rightarrow> nat \<Rightarrow> nat \<Rightarrow> 'a list" where
  "slice ary st en = drop st (take en ary)"

definition array_split :: "'a list \<Rightarrow> nat \<Rightarrow> py_error + 'a list list" where
  "array_split ary Nsections =
     (if Nsections \<le> 0 then Inl ValueError
      else
        let Ntotal = length ary;
            Neach_section = Ntotal div Nsections;
            extras = Ntotal mod Nsections;
            section_sizes = [0] @ replicate extras (Neach_section + 1)
                            @ replicate (Nsections - extras) Neach_section;
            div_points = cumsum section_sizes
        in Inr (map (\<lambda>i. slice ary (div_points ! i) (div_points ! (i + 1))) [0..<Nsections]))"

definition np_split :: "'a list \<Rightarrow> nat \<Rightarrow> py_error + 'a list list" where
  "np_split ary sections =
     (if sections = 0 then Inl ZeroDivisionError
      else if length ary mod sections \<noteq> 0 then Inl ValueError
      else array_split ary sections)"

text \<open>
  Concatenation along axis 0 of a list of batches (\<^verbatim>\<open>np.concatenate\<close>), which raises
  on an empty list of arrays.
\<close>

definition concatenate :: "'a list list \<Rightarrow> py_error + 'a list" where
  "concatenate arys = (if arys = [] then Inl ValueError else Inr (concat arys))"

section \<open>The CUDA Quantum notebook: kernels and parameter arrays\<close>

subsection \<open>Kernels\<close>

text \<open>
  \<^verbatim>\<open>kernel, params = cudaq.make_kernel(list)\<close> starts an empty kernel whose one argument
  is a list; \<^verbatim>\<open>kernel.qalloc(n)\<close> allocates a register and each gate call appends a
  gate. A rotation \<^verbatim>\<open>kernel.rx(params[p], qubits[q])\<close> is \<open>RX p q\<close>: it reads entry
  \<open>p\<close> of the argument list.
\<close>

datatype gate = RX nat nat | RY nat nat | RZ nat nat | CZ nat nat

datatype quantum_kernel = Kernel (n_alloc: nat) (ops: "gate list")

datatype spin_op = SpinZ nat

definition make_kernel :: quantum_kernel where
  "make_kernel = Kernel 0 []"

definition qalloc :: "nat \<Rightarrow> quantum_kernel \<Rightarrow> quantum_kernel" where
  "qalloc n k = Kernel (n_alloc k + n) (ops k)"

definition apply_gate :: "gate \<Rightarrow> quantum_kernel \<Rightarrow> quantum_kernel" where
  "apply_gate g k = Kernel (n_alloc k) (ops k @ [g])"

text \<open>Python's \<^verbatim>\<open>l[0::2]\<close>; \<^verbatim>\<open>l[1::2]\<close> is \<open>every_other (drop 1 l)\<close>.\<close>

fun every_other :: "'a list \<Rightarrow> 'a list" where
  "every_other [] = []"
| "every_other [x] = [x]"
| "every_other (x # y # xs) = x # every_other xs"

text \<open>
  The kernel of the 20-qubit and of the 10-qubit cell:
  \<^verbatim>\<open>
  kernel, params = cudaq.make_kernel(list)
  qubits = kernel.qalloc(n_qubits)
  qubits_list = list(range(n_qubits))
  for i in range(n_qubits):
      kernel.rx(params[i], qubits[i])
  for i in range(n_qubits):
      kernel.ry(params[i + n_qubits], qubits[i])
  for i in range(n_qubits):
      kernel.rz(params[i + n_qubits*2], qubits[i])
  for q1, q2 in zip(qubits_list[0::2], qubits_list[1::2]):
      kernel.cz(qubits[q1], qubits[q2])
  \<close>
\<close>

definition build_kernel :: "nat \<Rightarrow> quantum_kernel" where
  "build_kernel nq =
     (let k0 = qalloc nq make_kernel;
          qubits_list = [0..<nq];
          k1 = fold (\<lambda>i. apply_gate (RX i i)) [0..<nq] k0;
          k2 = fold (\<lambda>i. apply_gate (RY (i + nq) i)) [0..<nq] k1;
          k3 = fold (\<lambda>i. apply_gate (RZ (i + nq * 2) i)) [0..<nq] k2
      in fold (\<lambda>(q1, q2). apply_gate (CZ q1 q2))
           (zip (every_other qubits_list) (every_other (drop 1 qubits_list))) k3)"

text \<open>
  \<^verbatim>\<open>kernel1\<close> and \<^verbatim>\<open>kernel2\<close> of the two-kernel cell:
  \<^verbatim>\<open>
  kernel1, params = cudaq.make_kernel(list)
  qubits = kernel1.qalloc(n_qubits)
  for i in range(n_qubits):
      kernel1.rx(params[i], qubits[i])
  \<close>
\<close>

definition build_rx_kernel :: "nat \<Rightarrow> quantum_kernel" where
  "build_rx_kernel nq = fold (\<lambda>i. apply_gate (RX i i)) [0..<nq] (qalloc nq make_kernel)"

text \<open>
  \<^verbatim>\<open>make_kernel(list)\<close> declares no length. The parameter count of a kernel is the
  number of list entries its gates read: one more than the largest index, 0 when no gate
  reads the list.
\<close>

fun gate_params :: "gate \<Rightarrow> nat list" where
  "gate_params (RX p q) = [p]"
| "gate_params (RY p q) = [p]"
| "gate_params (RZ p q) = [p]"
| "gate_params (CZ q1 q2) = []"

definition param_count :: "quantum_kernel \<Rightarrow> nat" where
  "param_count k = fold (\<lambda>p m. max (Suc p) m) (concat (map gate_params (ops k))) 0"

subsection \<open>The parameter array\<close>

text \<open>
  \<^verbatim>\<open>np.random.default_rng(13).uniform(low=0, high=1, size=(n_samples, n_parameters))\<close>
  makes a fresh generator from the seed and fills the array in row-major order, one
  draw per entry. The bit generator is NumPy's; it enters as two parameters:
  \<open>default_rng\<close> (seed to generator state) and \<open>draw\<close> (one uniform variate on
  \<open>[0, 1)\<close> and the next state).
\<close>

fun draws :: "('g \<Rightarrow> 'a \<times> 'g) \<Rightarrow> nat \<Rightarrow> 'g \<Rightarrow> 'a list \<times> 'g" where
  "draws draw 0 g = ([], g)"
| "draws draw (Suc n) g =
     (case draw g of (x, g') \<Rightarrow> (case draws draw n g' of (xs, g'') \<Rightarrow> (x # xs, g'')))"

fun draw_rows :: "('g \<Rightarrow> 'a \<times> 'g) \<Rightarrow> nat \<Rightarrow> nat \<Rightarrow> 'g \<Rightarrow> 'a array2 \<times> 'g" where
  "draw_rows draw 0 m g = ([], g)"
| "draw_rows draw (Suc n) m g =
     (case draws draw m g of (row, g') \<Rightarrow>
        (case draw_rows draw n m g' of (rows, g'') \<Rightarrow> (row # rows, g'')))"

definition uniform :: "('g \<Rightarrow> 'a \<times> 'g) \<Rightarrow> 'g \<Rightarrow> nat \<times> nat \<Rightarrow> 'a array2" where
  "uniform draw g shape = fst (draw_rows draw (fst shape) (snd shape) g)"

text \<open>
  \<^verbatim>\<open>np.random.seed(1)\<close> reseeds NumPy's global legacy generator, which the notebook
  never draws from.
\<close>

datatype np_random_state = Unseeded | Seeded nat

section \<open>The CUDA Quantum notebook: dispatch and collection\<close>

text \<open>
  The dispatcher is the external runtime. A call takes the runtime's state \<open>'w\<close> and
  returns an exception or a result, and the next state:
  \<^item> \<^verbatim>\<open>cudaq.observe(kernel, h, row)\<close> is \<open>observe k hm row w\<close>;
  \<^item> \<^verbatim>\<open>cudaq.observe_async(kernel, h, row, qpu_id = i)\<close> is \<open>observe_async k hm row i w\<close>
    and returns a handle;
  \<^item> \<^verbatim>\<open>res.get().expectation_z()\<close> is \<open>get_expectation_z res w\<close>.
\<close>

datatype 'e exn = PyError py_error | RuntimeError 'e

text \<open>
  The loop \<^verbatim>\<open>for x in xs: acc.append(call(x))\<close>. An exception leaves the loop at
  once: the list holds what was appended before the failing call.
\<close>

fun append_each ::
  "('x \<Rightarrow> 'w \<Rightarrow> ('e + 'y) \<times> 'w) \<Rightarrow> 'x list \<Rightarrow> 'y list \<Rightarrow> 'w \<Rightarrow> 'e option \<times> 'y list \<times> 'w" where
  "append_each call [] acc w = (None, acc, w)"
| "append_each call (x # xs) acc w =
     (case call x w of
        (Inl e, w') \<Rightarrow> (Some e, acc, w')
      | (Inr y, w') \<Rightarrow> append_each call xs (acc @ [y]) w')"

text \<open>
  \<^verbatim>\<open>
  for i in range(len(xi)):
      for j in range(xi[i].shape[0]):
          asyncresults.append(cudaq.observe_async(kernel, h, xi[i][j,:], qpu_id = i))
  \<close>
  The outer loop counts the batch index \<open>i\<close> up from 0; the inner loop is
  \<open>append_each\<close> over the rows of batch \<open>i\<close>.
\<close>

fun submit_batches ::
  "(quantum_kernel \<Rightarrow> spin_op \<Rightarrow> 'a list \<Rightarrow> nat \<Rightarrow> 'w \<Rightarrow> ('e + 'h) \<times> 'w) \<Rightarrow>
     quantum_kernel \<Rightarrow> spin_op \<Rightarrow> nat \<Rightarrow> 'a array2 list \<Rightarrow> 'h list \<Rightarrow> 'w \<Rightarrow>
     'e option \<times> 'h list \<times> 'w" where
  "submit_batches observe_async k hm i [] acc w = (None, acc, w)"
| "submit_batches observe_async k hm i (b # bs) acc w =
     (case append_each (\<lambda>row. observe_async k hm row i) b acc w of
        (Some e, acc', w') \<Rightarrow> (Some e, acc', w')
      | (None, acc', w') \<Rightarrow> submit_batches observe_async k hm (Suc i) bs acc' w')"

text \<open>
  \<^verbatim>\<open>
  expvals = []
  for res in asyncresults:
      expvals.append(res.get().expectation_z())
  \<close>
\<close>

definition collect ::
  "('h \<Rightarrow> 'w \<Rightarrow> ('e + 'v) \<times> 'w) \<Rightarrow> 'h list \<Rightarrow> 'w \<Rightarrow> 'e option \<times> 'v list \<times> 'w" where
  "collect get_expectation_z handles w = append_each get_expectation_z handles [] w"

subsection \<open>The notebook's variables and cells\<close>

text \<open>
  The variables the cells share. A cell takes the variables and the runtime's state
  and returns the exception that stopped it, if any, with the variables and the
  runtime's state as they are at that moment. The variables \<^verbatim>\<open>qubits\<close>,
  \<^verbatim>\<open>qubits_list\<close>, \<^verbatim>\<open>params\<close> and \<^verbatim>\<open>hamiltonian\<close> are read by no later cell
  and are left out, as are the \<^verbatim>\<open>print\<close> calls and the target selection
  (\<^verbatim>\<open>cudaq.set_target\<close>), which acts on the runtime's state only.
\<close>

record ('a, 'h, 'v, 'r) notebook =
  n_qubits :: nat
  n_samples :: nat
  n_parameters :: nat
  h :: spin_op
  parameters :: "'a array2"
  np_random :: np_random_state
  kernel :: quantum_kernel
  kernel1 :: quantum_kernel
  kernel2 :: quantum_kernel
  exp_vals :: "'r list"
  xi :: "'a array2 list"
  asyncresults :: "'h list"
  expvals :: "'v list"
  exp_vals1 :: "'h list"
  exp_vals2 :: "'h list"

text \<open>
  Lines 53 and 54 (and 150 and 151, 194 and 195):
  \<^verbatim>\<open>
  parameters = np.random.default_rng(13).uniform(low=0, high=1, size = (n_samples,n_parameters))
  np.random.seed(1)
  \<close>
\<close>

definition generate_parameters ::
  "(nat \<Rightarrow> 'g) \<Rightarrow> ('g \<Rightarrow> 'a \<times> 'g) \<Rightarrow> ('a, 'h, 'v, 'r) notebook \<Rightarrow> ('a, 'h, 'v, 'r) notebook" where
  "generate_parameters default_rng draw s =
     s\<lparr>parameters := uniform draw (default_rng 13) (n_samples s, n_parameters s),
       np_random := Seeded 1\<rparr>"

text \<open>The 20-qubit cell up to the kernel (lines 48 to 72).\<close>

definition setup_20q ::
  "(nat \<Rightarrow> 'g) \<Rightarrow> ('g \<Rightarrow> 'a \<times> 'g) \<Rightarrow> ('a, 'h, 'v, 'r) notebook \<Rightarrow> ('a, 'h, 'v, 'r) notebook" where
  "setup_20q default_rng draw s =
     (let s1 = s\<lparr>n_qubits := 20, n_samples := 1000, h := SpinZ 0\<rparr>;
          s2 = s1\<lparr>n_parameters := n_qubits s1 * 3\<rparr>;
          s3 = generate_parameters default_rng draw s2
      in s3\<lparr>kernel := build_kernel (n_qubits s3)\<rparr>)"

text \<open>
  The whole 20-qubit cell: the setup, then (line 76)
  \<^verbatim>\<open>exp_vals = [cudaq.observe(kernel, h, parameters[i]) for i in range(parameters.shape[0])]\<close>.
  The list is assigned only when every call has returned.
\<close>

definition scaling_cell ::
  "(nat \<Rightarrow> 'g) \<Rightarrow> ('g \<Rightarrow> 'a \<times> 'g) \<Rightarrow>
     (quantum_kernel \<Rightarrow> spin_op \<Rightarrow> 'a list \<Rightarrow> 'w \<Rightarrow> ('e + 'r) \<times> 'w) \<Rightarrow>
     ('a, 'h, 'v, 'r) notebook \<Rightarrow> 'w \<Rightarrow> 'e exn option \<times> ('a, 'h, 'v, 'r) notebook \<times> 'w" where
  "scaling_cell default_rng draw observe s w =
     (let s1 = setup_20q default_rng draw s
      in case append_each (\<lambda>row. observe (kernel s1) (h s1) row) (parameters s1) [] w of
           (Some e, rs, w') \<Rightarrow> (Some (RuntimeError e), s1, w')
         | (None, rs, w') \<Rightarrow> (None, s1\<lparr>exp_vals := rs\<rparr>, w'))"

text \<open>The batching cell (lines 102 to 108): \<^verbatim>\<open>xi = np.split(parameters, 4)\<close>.\<close>

definition split_cell ::
  "('a, 'h, 'v, 'r) notebook \<Rightarrow> 'w \<Rightarrow> 'e exn option \<times> ('a, 'h, 'v, 'r) notebook \<times> 'w" where
  "split_cell s w =
     (case np_split (parameters s) 4 of
        Inl e \<Rightarrow> (Some (PyError e), s, w)
      | Inr batches \<Rightarrow> (None, s\<lparr>xi := batches\<rparr>, w))"

text \<open>
  The asynchronous cell (lines 117 to 125, and again lines 223 to 231). When a dispatch
  raises, \<^verbatim>\<open>expvals = []\<close> has not run and \<^verbatim>\<open>expvals\<close> keeps its old value.
\<close>

definition async_cell ::
  "(quantum_kernel \<Rightarrow> spin_op \<Rightarrow> 'a list \<Rightarrow> nat \<Rightarrow> 'w \<Rightarrow> ('e + 'h) \<times> 'w) \<Rightarrow>
     ('h \<Rightarrow> 'w \<Rightarrow> ('e + 'v) \<times> 'w) \<Rightarrow>
     ('a, 'h, 'v, 'r) notebook \<Rightarrow> 'w \<Rightarrow> 'e exn option \<times> ('a, 'h, 'v, 'r) notebook \<times> 'w" where
  "async_cell observe_async get_expectation_z s w =
     (case submit_batches observe_async (kernel s) (h s) 0 (xi s) [] w of
        (Some e, handles, w') \<Rightarrow> (Some (RuntimeError e), s\<lparr>asyncresults := handles\<rparr>, w')
      | (None, handles, w') \<Rightarrow>
          (case append_each get_expectation_z handles [] w' of
             (Some e, vals, w'') \<Rightarrow>
               (Some (RuntimeError e), s\<lparr>asyncresults := handles, expvals := vals\<rparr>, w'')
           | (None, vals, w'') \<Rightarrow>
               (None, s\<lparr>asyncresults := handles, expvals := vals\<rparr>, w'')))"

text \<open>The 10-qubit cell (lines 143 to 171); it dispatches nothing.\<close>

definition setup_10q ::
  "(nat \<Rightarrow> 'g) \<Rightarrow> ('g \<Rightarrow> 'a \<times> 'g) \<Rightarrow> ('a, 'h, 'v, 'r) notebook \<Rightarrow> ('a, 'h, 'v, 'r) notebook" where
  "setup_10q default_rng draw s =
     (let s1 = s\<lparr>n_qubits := 10, n_samples := 1000\<rparr>;
          s2 = s1\<lparr>n_parameters := n_qubits s1 * 3\<rparr>;
          s3 = generate_parameters default_rng draw s2
      in s3\<lparr>kernel := build_kernel (n_qubits s3)\<rparr>)"

text \<open>The two-kernel cell (lines 187 to 214), with \<^verbatim>\<open>n_parameters = n_qubits\<close>.\<close>

definition setup_two_kernels ::
  "(nat \<Rightarrow> 'g) \<Rightarrow> ('g \<Rightarrow> 'a \<times> 'g) \<Rightarrow> ('a, 'h, 'v, 'r) notebook \<Rightarrow> ('a, 'h, 'v, 'r) notebook" where
  "setup_two_kernels default_rng draw s =
     (let s1 = s\<lparr>n_qubits := 10, n_samples := 500, h := SpinZ 0\<rparr>;
          s2 = s1\<lparr>n_parameters := n_qubits s1\<rparr>;
          s3 = generate_parameters default_rng draw s2;
          s4 = s3\<lparr>kernel1 := build_rx_kernel (n_qubits s3)\<rparr>
      in s4\<lparr>kernel2 := build_rx_kernel (n_qubits s4)\<rparr>)"

text \<open>
  The last dispatching cell (lines 241 to 243):
  \<^verbatim>\<open>
  exp_vals1 = [cudaq.observe_async(kernel1, h, parameters[i], qpu_id = 0) for i in range(parameters.shape[0])]
  exp_vals2 = [cudaq.observe_async(kernel2, h, parameters[i], qpu_id = 1) for i in range(parameters.shape[0])]
  \<close>
\<close>

definition two_kernels_cell ::
  "(quantum_kernel \<Rightarrow> spin_op \<Rightarrow> 'a list \<Rightarrow> nat \<Rightarrow> 'w \<Rightarrow> ('e + 'h) \<times> 'w) \<Rightarrow>
     ('a, 'h, 'v, 'r) notebook \<Rightarrow> 'w \<Rightarrow> 'e exn option \<times> ('a, 'h, 'v, 'r) notebook \<times> 'w" where
  "two_kernels_cell observe_async s w =
     (case append_each (\<lambda>row. observe_async (kernel1 s) (h s) row 0) (parameters s) [] w of
        (Some e, hs, w') \<Rightarrow> (Some (RuntimeError e), s, w')
      | (None, hs, w') \<Rightarrow>
          (let s1 = s\<lparr>exp_vals1 := hs\<rparr>
           in case append_each (\<lambda>row. observe_async (kernel2 s1) (h s1) row 1) (parameters s1) [] w' of
                (Some e, hs', w'') \<Rightarrow> (Some (RuntimeError e), s1, w'')
              | (None, hs', w'') \<Rightarrow> (None, s1\<lparr>exp_vals2 := hs'\<rparr>, w'')))"

text \<open>
  Running cells one after the other, top to bottom: a cell that raises stops the run.
\<close>

definition then_cell ::
  "('s \<Rightarrow> 'w \<Rightarrow> 'x option \<times> 's \<times> 'w) \<Rightarrow> ('s \<Rightarrow> 'w \<Rightarrow> 'x option \<times> 's \<times> 'w) \<Rightarrow>
     's \<Rightarrow> 'w \<Rightarrow> 'x option \<times> 's \<times> 'w" where
  "then_cell c1 c2 s w =
     (case c1 s w of
        (Some e, s', w') \<Rightarrow> (Some e, s', w')
      | (None, s', w') \<Rightarrow> c2 s' w')"

definition assign_cell :: "('s \<Rightarrow> 's) \<Rightarrow> 's \<Rightarrow> 'w \<Rightarrow> 'x option \<times> 's \<times> 'w" where
  "assign_cell f s w = (None, f s, w)"

text \<open>
  The cells up to the first asynchronous collection (lines 48 to 125), the two-kernel
  cells on their own (lines 187 to 214 and 241 to 243), and the dispatching cells of
  the notebook in the order of the file. The cells after line 243 dispatch nothing:
  they list the module and select a target, and the last one names the undefined
  \<^verbatim>\<open>x_train\<close> before any call.
\<close>

definition batching_run ::
  "(nat \<Rightarrow> 'g) \<Rightarrow> ('g \<Rightarrow> 'a \<times> 'g) \<Rightarrow>
     (quantum_kernel \<Rightarrow> spin_op \<Rightarrow> 'a list \<Rightarrow> 'w \<Rightarrow> ('e + 'r) \<times> 'w) \<Rightarrow>
     (quantum_kernel \<Rightarrow> spin_op \<Rightarrow> 'a list \<Rightarrow> nat \<Rightarrow> 'w \<Rightarrow> ('e + 'h) \<times> 'w) \<Rightarrow>
     ('h \<Rightarrow> 'w \<Rightarrow> ('e + 'v) \<times> 'w) \<Rightarrow>
     ('a, 'h, 'v, 'r) notebook \<Rightarrow> 'w \<Rightarrow> 'e exn option \<times> ('a, 'h, 'v, 'r) notebook \<times> 'w" where
  "batching_run default_rng draw observe observe_async get_expectation_z =
     then_cell (scaling_cell default_rng draw observe)
       (then_cell split_cell (async_cell observe_async get_expectation_z))"

definition two_kernels_run ::
  "(nat \<Rightarrow> 'g) \<Rightarrow> ('g \<Rightarrow> 'a \<times> 'g) \<Rightarrow>
     (quantum_kernel \<Rightarrow> spin_op \<Rightarrow> 'a list \<Rightarrow> nat \<Rightarrow> 'w \<Rightarrow> ('e + 'h) \<times> 'w) \<Rightarrow>
     ('a, 'h, 'v, 'r) notebook \<Rightarrow> 'w \<Rightarrow> 'e exn option \<times> ('a, 'h, 'v, 'r) notebook \<times> 'w" where
  "two_kernels_run default_rng draw observe_async =
     then_cell (assign_cell (setup_two_kernels default_rng draw)) (two_kernels_cell observe_async)"

definition notebook_run ::
  "(nat \<Rightarrow> 'g) \<Rightarrow> ('g \<Rightarrow> 'a \<times> 'g) \<Rightarrow>
     (quantum_kernel \<Rightarrow> spin_op \<Rightarrow> 'a list \<Rightarrow> 'w \<Rightarrow> ('e + 'r) \<times> 'w) \<Rightarrow>
     (quantum_kernel \<Rightarrow> spin_op \<Rightarrow> 'a list \<Rightarrow> nat \<Rightarrow> 'w \<Rightarrow> ('e + 'h) \<times> 'w) \<Rightarrow>
     ('h \<Rightarrow> 'w \<Rightarrow> ('e + 'v) \<times> 'w) \<Rightarrow>
     ('a, 'h, 'v, 'r) notebook \<Rightarrow> 'w \<Rightarrow> 'e exn option \<times> ('a, 'h, 'v, 'r) notebook \<times> 'w" where
  "notebook_run default_rng draw observe observe_async get_expectation_z =
     then_cell (batching_run default_rng draw observe observe_async get_expectation_z)
       (then_cell (assign_cell (setup_10q default_rng draw))
          (then_cell (assign_cell (setup_two_kernels default_rng draw))
             (then_cell (async_cell observe_async get_expectation_z)
                (two_kernels_cell observe_async))))"

subsection \<open>The trace of runtime calls\<close>

text \<open>
  What the driver does is the sequence of calls it makes. A runtime function is wrapped
  so that every call is written, with its arguments and its outcome, to a log kept
  beside the runtime's state; the cells themselves are unchanged.
\<close>

datatype ('a, 'h, 'v, 'r, 'e) event =
    Observe quantum_kernel spin_op "'a list" "'e + 'r"
  | ObserveAsync quantum_kernel spin_op "'a list" nat "'e + 'h"
  | GetExpectationZ 'h "'e + 'v"

definition logged :: "('x \<Rightarrow> 'res \<Rightarrow> 'ev) \<Rightarrow> ('x \<Rightarrow> 'w \<Rightarrow> 'res \<times> 'w) \<Rightarrow> 'x \<Rightarrow> 'w \<times> 'ev list \<Rightarrow> 'res \<times> 'w \<times> 'ev list" where
  "logged ev call x wl =
     (case call x (fst wl) of (res, w') \<Rightarrow> (res, w', snd wl @ [ev x res]))"

definition logged_observe ::
  "(quantum_kernel \<Rightarrow> spin_op \<Rightarrow> 'a list \<Rightarrow> 'w \<Rightarrow> ('e + 'r) \<times> 'w) \<Rightarrow>
     quantum_kernel \<Rightarrow> spin_op \<Rightarrow> 'a list \<Rightarrow> 'w \<times> ('a, 'h, 'v, 'r, 'e) event list \<Rightarrow>
     ('e + 'r) \<times> 'w \<times> ('a, 'h, 'v, 'r, 'e) event list" where
  "logged_observe observe k hm row = logged (\<lambda>_. Observe k hm row) (\<lambda>_. observe k hm row) ()"

definition logged_observe_async ::
  "(quantum_kernel \<Rightarrow> spin_op \<Rightarrow> 'a list \<Rightarrow> nat \<Rightarrow> 'w \<Rightarrow> ('e + 'h) \<times> 'w) \<Rightarrow>
     quantum_kernel \<Rightarrow> spin_op \<Rightarrow> 'a list \<Rightarrow> nat \<Rightarrow> 'w \<times> ('a, 'h, 'v, 'r, 'e) event list \<Rightarrow>
     ('e + 'h) \<times> 'w \<times> ('a, 'h, 'v, 'r, 'e) event list" where
  "logged_observe_async observe_async k hm row q =
     logged (\<lambda>_. ObserveAsync k hm row q) (\<lambda>_. observe_async k hm row q) ()"

definition logged_get ::
  "('h \<Rightarrow> 'w \<Rightarrow> ('e + 'v) \<times> 'w) \<Rightarrow> 'h \<Rightarrow> 'w \<times> ('a, 'h, 'v, 'r, 'e) event list \<Rightarrow>
     ('e + 'v) \<times> 'w \<times> ('a, 'h, 'v, 'r, 'e) event list" where
  "logged_get get_expectation_z = logged GetExpectationZ get_expectation_z"

text \<open>
  The jobs of the submission loop in the order of the loop: every batch \<open>i\<close>, every
  row of \<open>xi[i]\<close>, with the device identifier \<open>i\<close>. \<open>jobs_from\<close> is the same list
  by recursion over the batches, counting from \<open>i\<close>.
\<close>

definition planned_jobs :: "'a array2 list \<Rightarrow> ('a list \<times> nat) list" where
  "planned_jobs batches =
     concat (map (\<lambda>i. map (\<lambda>row. (row, i)) (batches ! i)) [0..<length batches])"

fun jobs_from :: "nat \<Rightarrow> 'a array2 list \<Rightarrow> ('a list \<times> nat) list" where
  "jobs_from i [] = []"
| "jobs_from i (b # bs) = map (\<lambda>row. (row, i)) b @ jobs_from (Suc i) bs"

text \<open>The rows and device identifiers of the dispatches in a log, in order.\<close>

fun dispatched :: "('a, 'h, 'v, 'r, 'e) event list \<Rightarrow> ('a list \<times> nat) list" where
  "dispatched [] = []"
| "dispatched (ObserveAsync k hm row q res # evs) = (row, q) # dispatched evs"
| "dispatched (ev # evs) = dispatched evs"

text \<open>Whether a call failed, and whether a dispatch passes as many values as the kernel reads.\<close>

fun failed :: "('a, 'h, 'v, 'r, 'e) event \<Rightarrow> bool" where
  "failed (Observe k hm row res) = isl res"
| "failed (ObserveAsync k hm row q res) = isl res"
| "failed (GetExpectationZ fut res) = isl res"

fun shape_ok :: "('a, 'h, 'v, 'r, 'e) event \<Rightarrow> bool" where
  "shape_ok (Observe k hm row res) = (length row = param_count k)"
| "shape_ok (ObserveAsync k hm row q res) = (length row = param_count k)"
| "shape_ok (GetExpectationZ fut res) = True"

text \<open>
  The log entries of one loop \<open>for x in xs: acc.append(call(x))\<close> that appended
  \<open>ys\<close> and ended with \<open>exc\<close>: the successful calls in order, then the failing
  call if there was one.
\<close>

definition call_trace :: "('x \<Rightarrow> 'e + 'y \<Rightarrow> 'ev) \<Rightarrow> 'x list \<Rightarrow> 'y list \<Rightarrow> 'e option \<Rightarrow> 'ev list" where
  "call_trace ev xs ys exc =
     map (\<lambda>(x, y). ev x (Inr y)) (zip xs ys)
     @ (case exc of None \<Rightarrow> [] | Some e \<Rightarrow> [ev (xs ! length ys) (Inl e)])"

text \<open>
  The log entries of successful dispatches of \<open>jobs\<close> that returned \<open>handles\<close>, and
  of successful retrievals from \<open>handles\<close> that returned \<open>vals\<close>, pairwise in order.
\<close>

definition dispatch_events ::
  "quantum_kernel \<Rightarrow> spin_op \<Rightarrow> ('a list \<times> nat) list \<Rightarrow> 'h list \<Rightarrow> ('a, 'h, 'v, 'r, 'e) event list" where
  "dispatch_events k hm jobs handles =
     map (\<lambda>((row, q), fut). ObserveAsync k hm row q (Inr fut)) (zip jobs handles)"

definition retrieve_events :: "'h list \<Rightarrow> 'v list \<Rightarrow> ('a, 'h, 'v, 'r, 'e) event list" where
  "retrieve_events handles vals = map (\<lambda>(fut, v). GetExpectationZ fut (Inr v)) (zip handles vals)"

subsection \<open>Example runtimes and an example state\<close>

text \<open>
  Concrete runtimes for the examples. The runtime's state counts the calls made so
  far. A dispatch returns the count as the handle; with a limit it raises from the
  call numbered \<open>limit\<close> on. A retrieval returns ten times the handle; with a bad
  handle it raises on that handle. The example generator counts up from its seed.
\<close>

definition counting_observe ::
  "quantum_kernel \<Rightarrow> spin_op \<Rightarrow> nat list \<Rightarrow> nat \<Rightarrow> (string + nat) \<times> nat" where
  "counting_observe k hm row w = (Inr w, Suc w)"

definition counting_observe_async ::
  "quantum_kernel \<Rightarrow> spin_op \<Rightarrow> nat list \<Rightarrow> nat \<Rightarrow> nat \<Rightarrow> (string + nat) \<times> nat" where
  "counting_observe_async k hm row q w = (Inr w, Suc w)"

definition failing_observe_async ::
  "nat \<Rightarrow> quantum_kernel \<Rightarrow> spin_op \<Rightarrow> nat list \<Rightarrow> nat \<Rightarrow> nat \<Rightarrow> (string + nat) \<times> nat" where
  "failing_observe_async limit k hm row q w =
     (if w < limit then Inr w else Inl ''device lost'', Suc w)"

definition ready_get :: "nat \<Rightarrow> nat \<Rightarrow> (string + nat) \<times> nat" where
  "ready_get fut w = (Inr (10 * fut), Suc w)"

definition failing_get :: "nat \<Rightarrow> nat \<Rightarrow> nat \<Rightarrow> (string + nat) \<times> nat" where
  "failing_get bad fut w = (if fut = bad then Inl ''job failed'' else Inr (10 * fut), Suc w)"

definition counting_rng :: "nat \<Rightarrow> nat" where
  "counting_rng seed = seed"

definition counting_draw :: "nat \<Rightarrow> nat \<times> nat" where
  "counting_draw g = (g, Suc g)"

text \<open>
  A small state: a 1-qubit kernel of three rotations, and two batches of rows of three
  values, with old contents in the result lists.
\<close>

definition example_notebook :: "(nat, nat, nat, nat) notebook" where
  "example_notebook =
     \<lparr>n_qubits = 1, n_samples = 3, n_parameters = 3, h = SpinZ 0,
      parameters = [[1, 2, 3], [4, 5, 6], [7, 8, 9]], np_random = Seeded 1,
      kernel = build_kernel 1, kernel1 = make_kernel, kernel2 = make_kernel,
      exp_vals = [], xi = [[[1, 2, 3], [4, 5, 6]], [[7, 8, 9]]],
      asyncresults = [99], expvals = [77], exp_vals1 = [], exp_vals2 = []\<rparr>"

section \<open>Properties of the loss and the accuracy\<close>

lemma square_loss_loop_sum:
  "square_loss_loop A zs acc = Inr r \<longleftrightarrow>
     (\<exists>qs. all_values (map (\<lambda>(l, p). squared_difference A l p) zs) = Inr qs
           \<and> sum_in_order A acc qs = Inr r)"
proof (induction zs arbitrary: acc)
  case Nil
  show ?case by auto
next
  case (Cons z zs)
  obtain l p where z: "z = (l, p)" by (cases z)
  show ?case
  proof (cases "squared_difference A l p")
    case (Inl e)
    then show ?thesis by (simp add: z)
  next
    case q: (Inr q)
    show ?thesis
    proof (cases "accumulate A acc q")
      case (Inl e)
      with q show ?thesis by (auto simp: z split: sum.splits)
    next
      case (Inr acc')
      with q Cons.IH [of acc'] show ?thesis by (auto simp: z split: sum.splits)
    qed
  qed
qed

lemma zip_by_index:
  "zip xs ys = map (\<lambda>i. (xs ! i, ys ! i)) [0..<min (length xs) (length ys)]"
  by (rule nth_equalityI) auto

lemma squares_of_zip:
  "map (\<lambda>(l, p). squared_difference A l p) (zip labels predictions)
     = squares_by_index A labels predictions"
  by (subst zip_by_index) (simp add: squares_by_index_def)

lemma square_loss_mean:
  "square_loss A labels predictions = Inr v \<longleftrightarrow> mean_of_squares A labels predictions = Inr v"
proof -
  have "square_loss A labels predictions = Inr v \<longleftrightarrow>
      (\<exists>tot. square_loss_loop A (zip labels predictions) None = Inr tot
         \<and> truediv_len A tot (length labels) = Inr v)"
    by (auto simp: square_loss_def split: sum.splits)
  also have "\<dots> \<longleftrightarrow> (\<exists>qs tot. all_values (squares_by_index A labels predictions) = Inr qs
         \<and> sum_in_order A None qs = Inr tot
         \<and> truediv_len A tot (length labels) = Inr v)"
    by (auto simp: square_loss_loop_sum squares_of_zip)
  also have "\<dots> \<longleftrightarrow> mean_of_squares A labels predictions = Inr v"
    by (auto simp: mean_of_squares_def split: sum.splits)
  finally show ?thesis .
qed

lemma isl_by_values: "(\<And>v. x = Inr v \<longleftrightarrow> y = Inr v) \<Longrightarrow> isl x \<longleftrightarrow> isl y"
  by (cases x; cases y) auto

lemma mean_of_squares_unfold:
  "mean_of_squares A labels predictions = Inr v \<longleftrightarrow>
     (\<exists>qs tot.
        all_values (map (\<lambda>i. squared_difference A (labels ! i) (predictions ! i))
          [0..<min (length labels) (length predictions)]) = Inr qs
        \<and> sum_in_order A None qs = Inr tot
        \<and> truediv_len A tot (length labels) = Inr v)"
  by (auto simp: mean_of_squares_def squares_by_index_def split: sum.splits)

lemma exact_arith_simps:
  "el_sub exact_arith l p = Inr (l - p)"
  "el_square exact_arith d = Inr (d ^ 2)"
  "el_add_int0 exact_arith q = Inr q"
  "el_add exact_arith x q = Inr (x + q)"
  "el_div exact_arith x n = (if n = 0 then Inl ''ZeroDivisionError'' else Inr (x / real n))"
  "el_abs exact_arith d = Inr \<bar>d\<bar>"
  "el_below_tol exact_arith a = Inr (a < double_1e_5)"
  by (simp_all add: exact_arith_def)

lemma square_loss_loop_exact:
  "square_loss_loop exact_arith zs (Some x) = Inr (Some (x + (\<Sum>(l, p)\<leftarrow>zs. (l - p) ^ 2)))"
  by (induction zs arbitrary: x)
     (auto simp: squared_difference_def accumulate_def exact_arith_simps add.assoc)

lemma square_loss_exact:
  assumes "ls \<noteq> []" and "ps \<noteq> []"
  shows "square_loss exact_arith ls ps
           = Inr (Elem ((\<Sum>(l, p)\<leftarrow>zip ls ps. (l - p) ^ 2) / real (length ls)))"
proof -
  from assms obtain l ls' p ps' where "ls = l # ls'" and "ps = p # ps'"
    by (cases ls; cases ps) auto
  then show ?thesis
    by (simp add: square_loss_def squared_difference_def accumulate_def exact_arith_simps
          square_loss_loop_exact truediv_len_def)
qed

lemma sum_list_zip_nth:
  "(\<Sum>z\<leftarrow>zip xs ys. f z) = (\<Sum>i<min (length xs) (length ys). f (xs ! i, ys ! i))"
proof -
  have "(\<Sum>z\<leftarrow>zip xs ys. f z) = (\<Sum>i = 0..<length (zip xs ys). map f (zip xs ys) ! i)"
    by (simp add: sum_list_sum_nth)
  also have "\<dots> = (\<Sum>i<min (length xs) (length ys). f (xs ! i, ys ! i))"
    by (rule sum.cong) (auto simp: lessThan_atLeast0)
  finally show ?thesis .
qed

lemma square_loss_exact_index:
  assumes "ls \<noteq> []" and "ps \<noteq> []"
  shows "square_loss exact_arith ls ps
           = Inr (Elem ((\<Sum>i<min (length ls) (length ps). (ls ! i - ps ! i) ^ 2)
                          / real (length ls)))"
  using square_loss_exact [OF assms] sum_list_zip_nth [of "\<lambda>(l, p). (l - p) ^ 2" ls ps]
  by simp

text \<open>
  Claim C9. \<open>square_loss(labels, predictions)\<close> returns the sum of \<open>(l - p) ** 2\<close> over
  the pairs of \<open>zip(labels, predictions)\<close> divided by \<open>len(labels)\<close>. For non-empty
  sequences of equal length this is the mean squared error; when \<open>predictions\<close> is
  shorter than \<open>labels\<close>, only the matched positions are summed and the divisor is
  still \<open>len(labels)\<close>.

  The sum and the quotient are those of the elements' own arithmetic \<open>A\<close>, in the
  order of the loop: the function returns \<open>v\<close> exactly when the squared differences
  at the index positions \<open>0, 1, \<dots>\<close> below both lengths all return, their sum
  accumulated from the integer 0 in this order returns, and its division by
  \<open>len(labels)\<close> returns \<open>v\<close>; it raises exactly when one of these raises, and
  \<open>ZeroDivisionError\<close> when there are no labels. With labels but no predictions the
  result is the float 0.0. Where the elements' arithmetic is exact, the result is
  the number \<open>(\<Sum>i. (l\<^sub>i - p\<^sub>i)\<^sup>2) / len(labels)\<close>, the sum over the positions below both
  lengths.
\<close>

theorem square_loss_spec:
  "(square_loss A labels predictions = Inr v \<longleftrightarrow> mean_of_squares A labels predictions = Inr v)
   \<and> (isl (square_loss A labels predictions) \<longleftrightarrow> isl (mean_of_squares A labels predictions))
   \<and> (labels = [] \<longrightarrow> square_loss A labels predictions = Inl (ByPython ZeroDivisionError))
   \<and> (labels \<noteq> [] \<and> length predictions = length labels \<longrightarrow>
        (square_loss A labels predictions = Inr v \<longleftrightarrow>
           (\<exists>qs tot.
              all_values (map (\<lambda>i. squared_difference A (labels ! i) (predictions ! i))
                [0..<length labels]) = Inr qs
              \<and> sum_in_order A None qs = Inr tot
              \<and> truediv_len A tot (length labels) = Inr v)))
   \<and> (length predictions < length labels \<longrightarrow>
        (square_loss A labels predictions = Inr v \<longleftrightarrow>
           (\<exists>qs tot.
              all_values (map (\<lambda>i. squared_difference A (labels ! i) (predictions ! i))
                [0..<length predictions]) = Inr qs
              \<and> sum_in_order A None qs = Inr tot
              \<and> truediv_len A tot (length labels) = Inr v)))
   \<and> (labels \<noteq> [] \<and> predictions = [] \<longrightarrow>
        square_loss A labels predictions = Inr FloatZero)
   \<and> (ls \<noteq> [] \<and> length ps = length ls \<longrightarrow>
        square_loss exact_arith ls ps =
          Inr (Elem ((\<Sum>i<length ls. (ls ! i - ps ! i) ^ 2) / real (length ls))))
   \<and> (ps \<noteq> [] \<and> length ps < length ls \<longrightarrow>
        square_loss exact_arith ls ps =
          Inr (Elem ((\<Sum>i<length ps. (ls ! i - ps ! i) ^ 2) / real (length ls))))"
proof (intro conjI impI)
  show "square_loss A labels predictions = Inr v \<longleftrightarrow> mean_of_squares A labels predictions = Inr v"
    by (rule square_loss_mean)
  show "isl (square_loss A labels predictions) \<longleftrightarrow> isl (mean_of_squares A labels predictions)"
    by (rule isl_by_values) (rule square_loss_mean)
next
  assume "labels = []"
  then show "square_loss A labels predictions = Inl (ByPython ZeroDivisionError)"
    by (simp add: square_loss_def truediv_len_def)
next
  assume "labels \<noteq> [] \<and> length predictions = length labels"
  then have "min (length labels) (length predictions) = length labels" by simp
  then show "square_loss A labels predictions = Inr v \<longleftrightarrow>
           (\<exists>qs tot.
              all_values (map (\<lambda>i. squared_difference A (labels ! i) (predictions ! i))
                [0..<length labels]) = Inr qs
              \<and> sum_in_order A None qs = Inr tot
              \<and> truediv_len A tot (length labels) = Inr v)"
    using mean_of_squares_unfold [of A labels predictions v]
    by (simp only: square_loss_mean)
next
  assume "length predictions < length labels"
  then have "min (length labels) (length predictions) = length predictions" by simp
  then show "square_loss A labels predictions = Inr v \<longleftrightarrow>
           (\<exists>qs tot.
              all_values (map (\<lambda>i. squared_difference A (labels ! i) (predictions ! i))
                [0..<length predictions]) = Inr qs
              \<and> sum_in_order A None qs = Inr tot
              \<and> truediv_len A tot (length labels) = Inr v)"
    using mean_of_squares_unfold [of A labels predictions v]
    by (simp only: square_loss_mean)
next
  assume "labels \<noteq> [] \<and> predictions = []"
  then show "square_loss A labels predictions = Inr FloatZero"
    by (simp add: square_loss_def truediv_len_def)
next
  assume a: "ls \<noteq> [] \<and> length ps = length ls"
  then have "ps \<noteq> []" by auto
  with a square_loss_exact_index [of ls ps]
  show "square_loss exact_arith ls ps =
          Inr (Elem ((\<Sum>i<length ls. (ls ! i - ps ! i) ^ 2) / real (length ls)))"
    by simp
next
  assume a: "ps \<noteq> [] \<and> length ps < length ls"
  then have "ls \<noteq> []" by auto
  with a square_loss_exact_index [of ls ps]
  show "square_loss exact_arith ls ps =
          Inr (Elem ((\<Sum>i<length ps. (ls ! i - ps ! i) ^ 2) / real (length ls)))"
    by (simp add: min_def)
qed

text \<open>
  Equal lengths, predictions shorter than labels and no predictions, with exact
  arithmetic; and a square that raises.
\<close>

theorem square_loss_spec_witness:
  "square_loss exact_arith [1, -1] [1, 1] = Inr (Elem 2)
   \<and> mean_of_squares exact_arith [1, -1] [1, 1] = Inr (Elem 2)
   \<and> square_loss exact_arith [1, -1, 1] [0] = Inr (Elem (1 / 3))
   \<and> square_loss exact_arith [1, -1] [] = Inr FloatZero
   \<and> square_loss (bounded_arith 100) [1, 20] [1, -20] = Inl (ByElement ''OverflowError'')
   \<and> isl (mean_of_squares (bounded_arith 100) [1, 20] [1, -20])"
proof -
  have 1: "square_loss exact_arith [1, -1] [1, 1] = Inr (Elem 2)"
    and 2: "square_loss exact_arith [1, -1, 1] [0] = Inr (Elem (1 / 3))"
    and 3: "square_loss exact_arith [1, -1] [] = Inr FloatZero"
    and 4: "square_loss (bounded_arith 100) [1, 20] [1, -20] = Inl (ByElement ''OverflowError'')"
    by (simp_all add: square_loss_def squared_difference_def accumulate_def truediv_len_def
          exact_arith_def bounded_arith_def)
  from square_loss_spec [of exact_arith "[1, -1]" "[1, 1]" "Elem 2"] 1
  have "mean_of_squares exact_arith [1, -1] [1, 1] = Inr (Elem 2)" by blast
  moreover from square_loss_spec [of "bounded_arith 100" "[1, 20]" "[1, -20]"] 4
  have "isl (mean_of_squares (bounded_arith 100) [1, 20] [1, -20])" by simp
  ultimately show ?thesis using 1 2 3 4 by blast
qed

lemma round_half_even_le:
  assumes "0 < b" and "a \<le> N * b"
  shows "round_half_even a b \<le> N"
proof -
  from assms have q: "a div b \<le> N"
    by (metis div_mult_self_is_m zdiv_mono1 nonzero_mult_div_cancel_right less_irrefl)
  show ?thesis
  proof (cases "a div b = N")
    case True
    have "a = b * (a div b) + a mod b" by simp
    with True assms(2) have "a mod b \<le> 0" by (simp add: mult.commute)
    moreover from assms(1) have "0 \<le> a mod b" by simp
    ultimately have "a mod b = 0" by simp
    with True assms(1) show ?thesis by (simp add: round_half_even_def Let_def)
  next
    case False
    with q have "a div b + 1 \<le> N" by simp
    with q show ?thesis by (auto simp: round_half_even_def Let_def)
  qed
qed

lemma round_half_even_nonneg:
  assumes "0 < b" and "0 \<le> a"
  shows "0 \<le> round_half_even a b"
proof -
  from assms have "0 \<le> a div b" by (simp add: pos_imp_zdiv_nonneg_iff)
  then show ?thesis by (auto simp: round_half_even_def Let_def)
qed

lemma round_half_even_error:
  assumes "0 < b"
  shows "\<bar>2 * round_half_even a b * b - 2 * a\<bar> \<le> b"
proof -
  define q where "q = a div b"
  define r where "r = a mod b"
  have a: "a = q * b + r" by (simp add: q_def r_def)
  have r: "0 \<le> r" "r < b" using assms by (simp_all add: r_def)
  have "round_half_even a b = q \<and> 2 * r \<le> b \<or> round_half_even a b = q + 1 \<and> b \<le> 2 * r"
    by (auto simp: round_half_even_def Let_def q_def [symmetric] r_def [symmetric])
  then show ?thesis
  proof
    assume "round_half_even a b = q \<and> 2 * r \<le> b"
    then show ?thesis using r by (simp add: a algebra_simps)
  next
    assume "round_half_even a b = q + 1 \<and> b \<le> 2 * r"
    then show ?thesis using r by (simp add: a algebra_simps)
  qed
qed

lemma two_powi_neg: "p < 0 \<Longrightarrow> (2::real) powi p = 1 / 2 ^ nat (- p)"
  by (simp add: power_int_def field_simps)

lemma int_true_divide_same:
  assumes "0 < n"
  shows "int_true_divide n n = Inr 1"
proof -
  have e: "quotient_exponent n n = 0"
    using assms by (simp add: quotient_exponent_def bitlen_alt_def)
  have m: "round_half_even (n * 2 ^ 52) n = 2 ^ 52"
    using assms by (simp add: round_half_even_def Let_def)
  have "(4503599627370496::real) * 2 powi (- 52) = 1"
    by (simp add: two_powi_neg)
  then show ?thesis
    using assms e m by (simp add: int_true_divide_def Let_def)
qed

lemma int_true_divide_less:
  assumes "0 < c" and "c < n"
  obtains a where "int_true_divide c n = Inr a" and "0 \<le> a" and "a \<le> 1"
    and "n < 2 ^ 53 \<Longrightarrow> a < 1"
    and "\<bar>a - real_of_int c / real_of_int n\<bar> \<le> 1 / 2 ^ 54"
proof -
  define e where "e = quotient_exponent c n"
  define p where "p = max (e - 52) (- 1074)"
  define s where "s = nat (- p)"
  define m where "m = round_half_even (c * 2 ^ s) n"
  from assms have "0 < (n - 1) div c"
    by (simp add: pos_imp_zdiv_pos_iff)
  then have "1 \<le> bitlen ((n - 1) div c)"
    using bitlen_eq_zero_iff [of "(n - 1) div c"] bitlen_nonneg [of "(n - 1) div c"] by linarith
  with assms have e: "e \<le> - 1" by (simp add: e_def quotient_exponent_def)
  then have p: "p < 0" and ps: "p = - int s" and s53: "53 \<le> s"
    by (auto simp: p_def s_def)
  from assms have n: "0 < n" by simp
  have pw: "(0::int) < 2 ^ s" by simp
  have m0: "0 \<le> m"
    unfolding m_def using n assms(1) by (intro round_half_even_nonneg) simp_all
  have "c * 2 ^ s \<le> 2 ^ s * n" using assms(2) by simp
  from round_half_even_le [OF n this] have m1: "m \<le> 2 ^ s" by (simp add: m_def)
  define a where "a = real_of_int m * 2 powi p"
  have a: "a = real_of_int m / 2 ^ s"
    using p by (simp add: a_def two_powi_neg s_def)
  have a0: "0 \<le> a" using m0 by (simp add: a)
  have "real_of_int m \<le> 2 ^ s"
    using m1 by (metis of_int_le_iff of_int_numeral of_int_power)
  then have a1: "a \<le> 1" by (simp add: a field_simps)
  have "a < 2 ^ 1024" using a1 by (rule le_less_trans) simp
  then have r: "int_true_divide c n = Inr a"
    using assms p n
    by (simp add: int_true_divide_def Let_def e_def [symmetric] p_def [symmetric]
          s_def [symmetric] m_def [symmetric] a_def [symmetric])
  have lt: "a < 1" if "n < 2 ^ 53"
  proof -
    have "(2::int) ^ 53 \<le> 2 ^ s" using s53 by (intro power_increasing) simp_all
    with that have "n \<le> 2 ^ s" by simp
    also have "\<dots> \<le> (n - c) * 2 ^ s" using assms(2) by simp
    finally have "c * 2 ^ s \<le> (2 ^ s - 1) * n" by (simp add: algebra_simps)
    from round_half_even_le [OF n this] have "m \<le> 2 ^ s - 1" by (simp add: m_def)
    then have "m < 2 ^ s" by simp
    then have "real_of_int m < 2 ^ s"
      by (metis of_int_less_iff of_int_numeral of_int_power)
    then show ?thesis by (simp add: a field_simps)
  qed
  have err: "\<bar>a - real_of_int c / real_of_int n\<bar> \<le> 1 / 2 ^ 54"
  proof -
    let ?n = "real_of_int n"
    have npos: "0 < ?n" using n by simp
    have "\<bar>2 * m * n - 2 * (c * 2 ^ s)\<bar> \<le> n"
      using round_half_even_error [OF n, of "c * 2 ^ s"] by (simp add: m_def)
    then have "real_of_int \<bar>2 * m * n - 2 * (c * 2 ^ s)\<bar> \<le> ?n"
      by (simp only: of_int_le_iff)
    then have i: "\<bar>2 * real_of_int m * ?n - 2 * (real_of_int c * 2 ^ s)\<bar> \<le> ?n"
      by simp
    have "a - real_of_int c / ?n
            = (2 * real_of_int m * ?n - 2 * (real_of_int c * 2 ^ s)) / (2 * ?n * 2 ^ s)"
      using npos by (simp add: a field_simps)
    then have "\<bar>a - real_of_int c / ?n\<bar>
            = \<bar>2 * real_of_int m * ?n - 2 * (real_of_int c * 2 ^ s)\<bar> / (2 * ?n * 2 ^ s)"
      using npos by (simp only: abs_divide) (simp add: abs_mult)
    also have "\<dots> \<le> ?n / (2 * ?n * 2 ^ s)"
      using i npos by (intro divide_right_mono) simp_all
    also have "\<dots> = 1 / (2 * 2 ^ s)" using npos by simp
    also have "\<dots> = 1 / 2 ^ Suc s" by simp
    also have "\<dots> \<le> 1 / 2 ^ 54"
      using s53 by (intro divide_left_mono power_increasing) simp_all
    finally show ?thesis .
  qed
  from r a0 a1 lt err show thesis by (rule that)
qed

lemma int_true_divide_unit:
  assumes "0 \<le> c" and "c \<le> n" and "0 < n"
  shows "\<exists>a. int_true_divide c n = Inr a \<and> 0 \<le> a \<and> a \<le> 1
           \<and> (c = n \<longrightarrow> a = 1) \<and> (c < n \<and> n < 2 ^ 53 \<longrightarrow> a < 1)
           \<and> \<bar>a - real_of_int c / real_of_int n\<bar> \<le> 1 / 2 ^ 54"
proof -
  consider "c = 0" | "c = n" | "0 < c" "c < n" using assms by linarith
  then show ?thesis
  proof cases
    case 1
    with assms show ?thesis by (simp add: int_true_divide_def)
  next
    case 2
    with assms int_true_divide_same [of n] show ?thesis by simp
  next
    case 3
    from int_true_divide_less [OF 3] obtain a where
      "int_true_divide c n = Inr a" "0 \<le> a" "a \<le> 1" "n < 2 ^ 53 \<Longrightarrow> a < 1"
      "\<bar>a - real_of_int c / real_of_int n\<bar> \<le> 1 / 2 ^ 54"
      by blast
    with 3 show ?thesis by auto
  qed
qed

lemma accuracy_loop_count:
  "accuracy_loop A zs n =
     (case all_values (map (\<lambda>(l, p). within_tolerance A l p) zs) of
        Inl e \<Rightarrow> Inl e
      | Inr bs \<Rightarrow> Inr (n + length (filter (\<lambda>b. b) bs)))"
  by (induction zs arbitrary: n) (auto split: sum.splits)

lemma tests_of_zip:
  "map (\<lambda>(l, p). within_tolerance A l p) (zip labels predictions)
     = tests_by_index A labels predictions"
  unfolding tests_by_index_def by (subst zip_by_index) (simp add: comp_def)

lemma accuracy_fraction:
  "accuracy A labels predictions = fraction_matched A labels predictions"
  by (simp add: accuracy_def fraction_matched_def accuracy_loop_count tests_of_zip
        split: sum.splits)

lemma all_values_returning:
  assumes "\<forall>r \<in> set rs. \<not> isl r"
  shows "all_values rs = Inr (map projr rs)"
  using assms by (induction rs) (auto split: sum.splits)

lemma count_true_results:
  assumes "\<forall>r \<in> set rs. \<not> isl r"
  shows "length (filter (\<lambda>b. b) (map projr rs)) = length (filter (\<lambda>r. r = Inr True) rs)"
  using assms
proof (induction rs)
  case Nil
  then show ?case by simp
next
  case (Cons r rs)
  then obtain b where "r = Inr b" by (cases r) auto
  with Cons show ?case by simp
qed

lemma accuracy_returning:
  assumes "\<forall>i < min (length labels) (length predictions).
             \<not> isl (within_tolerance A (labels ! i) (predictions ! i))"
  shows "accuracy A labels predictions =
           (case int_true_divide (int (matches A labels predictions)) (int (length labels)) of
              Inl e \<Rightarrow> Inl (ByPython e)
            | Inr a \<Rightarrow> Inr a)"
proof -
  let ?rs = "tests_by_index A labels predictions"
  from assms have ret: "\<forall>r \<in> set ?rs. \<not> isl r"
    by (auto simp: tests_by_index_def)
  have "matches A labels predictions = length (filter (\<lambda>r. r = Inr True) ?rs)"
    unfolding matches_def tests_of_zip [symmetric]
    by (simp add: filter_map comp_def split_def)
  with count_true_results [OF ret]
  have "length (filter (\<lambda>b. b) (map projr ?rs)) = matches A labels predictions"
    by simp
  with all_values_returning [OF ret] show ?thesis
    by (simp add: accuracy_fraction fraction_matched_def)
qed

lemma matches_le: "matches A labels predictions \<le> min (length labels) (length predictions)"
  unfolding matches_def by (rule order_trans [OF length_filter_le]) simp

lemma length_filter_all: "(length (filter P xs) = length xs) = (\<forall>x\<in>set xs. P x)"
proof (induction xs)
  case Nil
  show ?case by simp
next
  case (Cons x xs)
  have "length (filter P xs) \<le> length xs" by simp
  then have "length (filter P xs) \<noteq> Suc (length xs)" by linarith
  with Cons show ?case by simp
qed

lemma matches_all:
  "matches A labels predictions = length (zip labels predictions)
     \<longleftrightarrow> (\<forall>i < min (length labels) (length predictions).
            within_tolerance A (labels ! i) (predictions ! i) = Inr True)"
proof -
  let ?P = "\<lambda>(l, p). within_tolerance A l p = Inr True"
  have "(length (filter ?P (zip labels predictions)) = length (zip labels predictions))
        = (\<forall>z\<in>set (zip labels predictions). ?P z)"
    by (rule length_filter_all)
  also have "\<dots> = (\<forall>i<length (zip labels predictions). ?P (zip labels predictions ! i))"
    by (simp add: all_set_conv_all_nth)
  also have "\<dots> = (\<forall>i<min (length labels) (length predictions).
                      within_tolerance A (labels ! i) (predictions ! i) = Inr True)"
    by auto
  finally show ?thesis by (simp add: matches_def)
qed

text \<open>
  Claim C10. \<open>accuracy(labels, predictions)\<close> returns the number of zipped pairs with
  \<open>abs(l - p) < 1e-5\<close> divided by \<open>len(labels)\<close>. For non-empty labels and predictions
  at least as long, the result lies in \<open>[0, 1]\<close>, and it is 1 exactly when every label
  is matched within the tolerance.

  The test \<open>abs(l - p) < 1e-5\<close> is the one the elements compute, rounding included
  (\<^const>\<open>within_tolerance\<close>); the count is an \<open>int\<close> and the division is Python's
  \<open>int / int\<close>, the double nearest to the quotient (\<^const>\<open>int_true_divide\<close>). So:
  the function is the fraction of matched index positions, an exception of a test
  ending the call; with no labels it raises \<open>ZeroDivisionError\<close>; when every test
  returns, the result is the rounded quotient of the count by \<open>len(labels)\<close>; and for
  non-empty labels with predictions at least as long it is a double in \<open>[0, 1]\<close>
  within \<open>2\<^sup>-\<^sup>5\<^sup>4\<close> of the quotient, equal to 1 exactly when every label is
  matched. The last equivalence is shown for fewer than \<open>2\<^sup>5\<^sup>3\<close> labels, more than
  a list can hold: with \<open>2\<^sup>5\<^sup>4\<close> labels and all but one matched the quotient rounds
  to 1.
\<close>

theorem accuracy_spec:
  "accuracy A labels predictions = fraction_matched A labels predictions
   \<and> (labels = [] \<longrightarrow> accuracy A labels predictions = Inl (ByPython ZeroDivisionError))
   \<and> ((\<forall>i < min (length labels) (length predictions).
          \<not> isl (within_tolerance A (labels ! i) (predictions ! i))) \<longrightarrow>
        accuracy A labels predictions =
          (case int_true_divide (int (matches A labels predictions)) (int (length labels)) of
             Inl e \<Rightarrow> Inl (ByPython e)
           | Inr a \<Rightarrow> Inr a)
        \<and> (labels \<noteq> [] \<and> length labels \<le> length predictions \<longrightarrow>
             (\<exists>a. accuracy A labels predictions = Inr a \<and> 0 \<le> a \<and> a \<le> 1
                \<and> \<bar>a - real (matches A labels predictions) / real (length labels)\<bar> \<le> 1 / 2 ^ 54
                \<and> (length labels < 2 ^ 53 \<longrightarrow>
                     (a = 1 \<longleftrightarrow>
                        (\<forall>i < length labels.
                           within_tolerance A (labels ! i) (predictions ! i) = Inr True))))))"
proof (intro conjI impI)
  show "accuracy A labels predictions = fraction_matched A labels predictions"
    by (rule accuracy_fraction)
next
  assume "labels = []"
  then show "accuracy A labels predictions = Inl (ByPython ZeroDivisionError)"
    by (simp add: accuracy_def int_true_divide_def)
next
  assume ret: "\<forall>i < min (length labels) (length predictions).
                 \<not> isl (within_tolerance A (labels ! i) (predictions ! i))"
  then show "accuracy A labels predictions =
          (case int_true_divide (int (matches A labels predictions)) (int (length labels)) of
             Inl e \<Rightarrow> Inl (ByPython e)
           | Inr a \<Rightarrow> Inr a)"
    by (rule accuracy_returning)
next
  assume ret: "\<forall>i < min (length labels) (length predictions).
                 \<not> isl (within_tolerance A (labels ! i) (predictions ! i))"
    and ne: "labels \<noteq> [] \<and> length labels \<le> length predictions"
  let ?n = "length labels"
  let ?m = "matches A labels predictions"
  from ne have n: "0 < ?n" and mn: "min ?n (length predictions) = ?n" by auto
  have le: "?m \<le> ?n" using matches_le [of A labels predictions] mn by simp
  from int_true_divide_unit [of "int ?m" "int ?n"] le n
  obtain a where a: "int_true_divide (int ?m) (int ?n) = Inr a" "0 \<le> a" "a \<le> 1"
    and one: "?m = ?n \<longrightarrow> a = 1"
    and less: "?m < ?n \<and> int ?n < 2 ^ 53 \<longrightarrow> a < 1"
    and err: "\<bar>a - real_of_int (int ?m) / real_of_int (int ?n)\<bar> \<le> 1 / 2 ^ 54"
    by auto
  have acc: "accuracy A labels predictions = Inr a"
    using accuracy_returning [OF ret] a(1) by simp
  have all: "(?m = ?n) = (\<forall>i < ?n. within_tolerance A (labels ! i) (predictions ! i) = Inr True)"
    using matches_all [of A labels predictions] mn by simp
  have iff: "a = 1 \<longleftrightarrow>
               (\<forall>i < ?n. within_tolerance A (labels ! i) (predictions ! i) = Inr True)"
    if small: "?n < 2 ^ 53"
  proof -
    from small have "int ?n < 2 ^ 53"
      by (metis of_nat_less_iff of_nat_numeral of_nat_power)
    with less le one have "a = 1 \<longleftrightarrow> ?m = ?n" by (cases "?m = ?n") auto
    with all show ?thesis by simp
  qed
  from err have err': "\<bar>a - real ?m / real ?n\<bar> \<le> 1 / 2 ^ 54" by simp
  show "\<exists>a. accuracy A labels predictions = Inr a \<and> 0 \<le> a \<and> a \<le> 1
                \<and> \<bar>a - real (matches A labels predictions) / real (length labels)\<bar> \<le> 1 / 2 ^ 54
                \<and> (length labels < 2 ^ 53 \<longrightarrow>
                     (a = 1 \<longleftrightarrow>
                        (\<forall>i < length labels.
                           within_tolerance A (labels ! i) (predictions ! i) = Inr True)))"
    using acc a(2,3) err' iff by blast
qed

lemma within_tolerance_exact:
  "within_tolerance exact_arith l p = Inr (\<bar>l - p\<bar> < double_1e_5)"
  by (simp add: within_tolerance_def exact_arith_simps)

lemma bitlen_1: "bitlen 1 = 1"
  by (simp add: bitlen_alt_def)

lemma int_true_divide_half: "int_true_divide 1 2 = Inr (1 / 2)"
  by (simp add: int_true_divide_def quotient_exponent_def round_half_even_def Let_def
        bitlen_1 two_powi_neg)

lemma int_true_divide_rounds_to_one: "int_true_divide (2 ^ 54 - 1) (2 ^ 54) = Inr 1"
  by (simp add: int_true_divide_def quotient_exponent_def round_half_even_def Let_def
        bitlen_1 two_powi_neg)

theorem accuracy_spec_witness:
  "accuracy exact_arith [1, - 1] [1, - 1, 1] = Inr 1
   \<and> matches exact_arith [1, - 1] [1, - 1, 1] = 2
   \<and> accuracy exact_arith [1, - 1] [1, 1] = Inr (1 / 2)
   \<and> matches exact_arith [1, - 1] [1, 1] = 1
   \<and> accuracy exact_arith [] [1] = Inl (ByPython ZeroDivisionError)"
proof -
  have tol: "0 < double_1e_5" "\<not> 2 < double_1e_5"
    by (simp_all add: double_1e_5_def)
  have m1: "matches exact_arith [1, - 1] [1, - 1, 1] = 2"
    by (simp add: matches_def within_tolerance_exact tol)
  have m2: "matches exact_arith [1, - 1] [1, 1] = 1"
    by (simp add: matches_def within_tolerance_exact tol)
  have r1: "\<forall>i < min (length [1, - 1 :: real]) (length [1, - 1, 1 :: real]).
              \<not> isl (within_tolerance exact_arith ([1, - 1] ! i) ([1, - 1, 1] ! i))"
    by (simp add: within_tolerance_exact)
  have r2: "\<forall>i < min (length [1, - 1 :: real]) (length [1, 1 :: real]).
              \<not> isl (within_tolerance exact_arith ([1, - 1] ! i) ([1, 1] ! i))"
    by (simp add: within_tolerance_exact)
  from accuracy_spec [of exact_arith "[1, - 1]" "[1, - 1, 1]"] r1
  have "accuracy exact_arith [1, - 1] [1, - 1, 1] =
          (case int_true_divide (int (matches exact_arith [1, - 1] [1, - 1, 1]))
                  (int (length [1, - 1 :: real])) of
             Inl e \<Rightarrow> Inl (ByPython e)
           | Inr a \<Rightarrow> Inr a)"
    by blast
  then have a1: "accuracy exact_arith [1, - 1] [1, - 1, 1] = Inr 1"
    by (simp add: m1 int_true_divide_same)
  from accuracy_spec [of exact_arith "[1, - 1]" "[1, 1]"] r2
  have "accuracy exact_arith [1, - 1] [1, 1] =
          (case int_true_divide (int (matches exact_arith [1, - 1] [1, 1]))
                  (int (length [1, - 1 :: real])) of
             Inl e \<Rightarrow> Inl (ByPython e)
           | Inr a \<Rightarrow> Inr a)"
    by blast
  then have a2: "accuracy exact_arith [1, - 1] [1, 1] = Inr (1 / 2)"
    by (simp add: m2 int_true_divide_half)
  from accuracy_spec [of exact_arith "[]" "[1]"]
  have a3: "accuracy exact_arith [] [1] = Inl (ByPython ZeroDivisionError)"
    by blast
  from a1 m1 a2 m2 a3 show ?thesis by (intro conjI)
qed

text \<open>
  The two functions on Python floats, at inputs where rounding or overflow decides
  the result. The labels \<^verbatim>\<open>[1e200]\<close> with the predictions \<^verbatim>\<open>[-1e200]\<close>: the difference
  \<^verbatim>\<open>2e200\<close> is a double, its square is not, and \<^verbatim>\<open>square_loss\<close> raises \<open>OverflowError\<close>.
  The labels \<^verbatim>\<open>[0.1, 1.0]\<close> with the predictions \<^verbatim>\<open>[0.3, 0.7]\<close>: the loss is the double
  \<^verbatim>\<open>0.065\<close> (\<^verbatim>\<open>0x1.0a3d70a3d70a4p-4\<close>), where the quotient of the exact sum rounds to
  \<^verbatim>\<open>0.06500000000000002\<close>. The label \<^verbatim>\<open>1e-05\<close> with the prediction \<^verbatim>\<open>8.3e-22\<close>: the
  difference rounds to \<^verbatim>\<open>1e-05\<close>, which is not below the tolerance, and the accuracy
  is 0; in exact arithmetic the difference is below the tolerance and the accuracy
  is 1.
\<close>

lemma square_loss_float_overflow:
  "square_loss py_float_arith [Fin 2941796710330669 613] [Fin (- 2941796710330669) 613]
     = Inl (ByElement OverflowError)"
  by code_simp

lemma square_loss_float_rounded:
  "square_loss py_float_arith [Fin 3602879701896397 (- 55), Fin 1 0]
       [Fin 5404319552844595 (- 54), Fin 3152519739159347 (- 52)]
     = Inr (Elem (Fin 4683743612465316 (- 56)))"
  by code_simp

lemma accuracy_float_rounded:
  "accuracy py_float_arith [Fin 5902958103587057 (- 69)] [Fin 8826073892011841 (- 123)] = Inr 0"
  by code_simp

lemma accuracy_exact_not_rounded:
  "accuracy exact_arith [5902958103587057 / 2 ^ 69] [8826073892011841 / 2 ^ 123] = Inr 1"
proof -
  have "within_tolerance exact_arith (5902958103587057 / 2 ^ 69) (8826073892011841 / 2 ^ 123)
          = Inr True"
    by (simp add: within_tolerance_exact double_1e_5_def)
  then show ?thesis
    using int_true_divide_same [of 1] by (simp add: accuracy_def)
qed

section \<open>Properties of the split\<close>

lemma length_cumsum_from: "length (cumsum_from acc xs) = length xs"
  by (induction xs arbitrary: acc) simp_all

lemma cumsum_from_nth:
  "i < length xs \<Longrightarrow> cumsum_from acc xs ! i = acc + sum_list (take (Suc i) xs)"
proof (induction xs arbitrary: acc i)
  case Nil
  then show ?case by simp
next
  case (Cons x xs)
  show ?case
  proof (cases i)
    case 0
    then show ?thesis by simp
  next
    case (Suc j)
    with Cons.prems have "j < length xs" by simp
    from Cons.IH [OF this, of "acc + x"] Suc show ?thesis by simp
  qed
qed

lemma cumsum_equal_sections:
  "i \<le> n \<Longrightarrow> cumsum (0 # replicate n k) ! i = i * k"
  using cumsum_from_nth [of i "0 # replicate n k" 0]
  by (simp add: cumsum_def min_def sum_list_replicate del: cumsum_from.simps)

lemma array_split_equal:
  assumes "0 < n" and "length ary mod n = 0"
  shows "array_split ary n =
           Inr (map (\<lambda>i. slice ary (i * (length ary div n)) ((i + 1) * (length ary div n))) [0..<n])"
proof -
  let ?k = "length ary div n"
  have "map (\<lambda>i. slice ary (cumsum (0 # replicate n ?k) ! i) (cumsum (0 # replicate n ?k) ! (i + 1))) [0..<n]
      = map (\<lambda>i. slice ary (i * ?k) ((i + 1) * ?k)) [0..<n]"
    by (rule map_cong) (simp_all add: cumsum_equal_sections)
  with assms show ?thesis
    by (simp add: array_split_def Let_def)
qed

lemma drop_take_append_drop:
  "a \<le> b \<Longrightarrow> drop a (take b ys) @ drop b ys = drop a ys"
proof (cases "b \<le> length ys")
  case True
  assume "a \<le> b"
  have "drop a (take b ys @ drop b ys) = drop a (take b ys) @ drop (a - length (take b ys)) (drop b ys)"
    by (rule drop_append)
  with True \<open>a \<le> b\<close> show ?thesis by (simp add: min_def)
next
  case False
  then show ?thesis by simp
qed

lemma slice_append:
  assumes "a \<le> b" and "b \<le> c"
  shows "slice xs a b @ slice xs b c = slice xs a c"
proof -
  have "take b xs = take b (take c xs)"
    using assms(2) by (simp add: min_def)
  then show ?thesis
    using drop_take_append_drop [OF assms(1), of "take c xs"]
    by (simp add: slice_def drop_take)
qed

lemma concat_slices:
  "(\<And>i. i < n \<Longrightarrow> dp i \<le> dp (Suc i)) \<Longrightarrow>
     concat (map (\<lambda>i. slice xs (dp i) (dp (Suc i))) [0..<n]) = slice xs (dp 0) (dp n)"
proof (induction n)
  case 0
  show ?case by (simp add: slice_def)
next
  case (Suc n)
  have mono: "dp 0 \<le> dp n"
    using Suc.prems by (induction n) (auto intro: order_trans less_SucI)
  have "concat (map (\<lambda>i. slice xs (dp i) (dp (Suc i))) [0..<Suc n])
      = slice xs (dp 0) (dp n) @ slice xs (dp n) (dp (Suc n))"
    using Suc by simp
  also have "\<dots> = slice xs (dp 0) (dp (Suc n))"
    using mono Suc.prems [of n] by (simp add: slice_append)
  finally show ?case .
qed

lemma np_split_equal:
  assumes "0 < n" and "n dvd length ary"
  shows "np_split ary n =
           Inr (map (\<lambda>i. slice ary (i * (length ary div n)) (Suc i * (length ary div n))) [0..<n])"
  using assms array_split_equal [of n ary] by (auto simp: np_split_def)

lemma np_split_error:
  "np_split ary n = (if n = 0 then Inl ZeroDivisionError
                     else if \<not> n dvd length ary then Inl ValueError
                     else Inr (map (\<lambda>i. slice ary (i * (length ary div n)) (Suc i * (length ary div n))) [0..<n]))"
  using np_split_equal [of n ary] by (auto simp: np_split_def dvd_eq_mod_eq_0)

lemma concat_equal_slices:
  assumes "n dvd length ary"
  shows "concat (map (\<lambda>i. slice ary (i * (length ary div n)) (Suc i * (length ary div n))) [0..<n]) = ary"
proof -
  have "concat (map (\<lambda>i. slice ary (i * (length ary div n)) (Suc i * (length ary div n))) [0..<n])
      = slice ary (0 * (length ary div n)) (n * (length ary div n))"
    by (rule concat_slices [of n "\<lambda>i. i * (length ary div n)"]) simp
  with assms show ?thesis by (simp add: slice_def)
qed

lemma length_equal_slice:
  assumes "n dvd length ary" and "i < n"
  shows "length (slice ary (i * (length ary div n)) (Suc i * (length ary div n))) = length ary div n"
proof -
  let ?k = "length ary div n"
  from assms(1) have len: "length ary = n * ?k" by simp
  from assms(2) have "Suc i * ?k \<le> n * ?k" by (intro mult_le_mono1) simp
  with len have "min (length ary) (Suc i * ?k) = Suc i * ?k" by simp
  then show ?thesis by (simp add: slice_def)
qed

lemma set_slice: "set (slice ary a b) \<subseteq> set ary"
  unfolding slice_def by (meson set_drop_subset set_take_subset subset_trans)

lemma np_split_batches:
  assumes "np_split ary n = Inr batches"
  shows "0 < n" and "n dvd length ary" and "length batches = n" and "concat batches = ary"
    and "\<And>b. b \<in> set batches \<Longrightarrow> length b = length ary div n \<and> set b \<subseteq> set ary"
proof -
  from assms show n: "0 < n" and d: "n dvd length ary"
    by (auto simp: np_split_error split: if_splits)
  from assms n d have b: "batches =
      map (\<lambda>i. slice ary (i * (length ary div n)) (Suc i * (length ary div n))) [0..<n]"
    by (simp add: np_split_error)
  show "length batches = n" by (simp add: b)
  show "concat batches = ary" unfolding b by (rule concat_equal_slices [OF d])
  fix c assume "c \<in> set batches"
  then obtain i where "i < n" and "c = slice ary (i * (length ary div n)) (Suc i * (length ary div n))"
    unfolding b by auto
  then show "length c = length ary div n \<and> set c \<subseteq> set ary"
    using length_equal_slice [OF d, of i] set_slice [of ary] by simp
qed

text \<open>The round trip and the equal division, for the split alone.\<close>

lemma np_split_concatenate:
  "(\<forall>batches. np_split ary 4 = Inr batches \<longrightarrow> concatenate batches = Inr ary)
   \<and> (length ary = 1000 \<longrightarrow> (\<exists>batches. np_split ary 4 = Inr batches))"
proof (intro conjI allI impI)
  fix batches assume a: "np_split ary 4 = Inr batches"
  from np_split_batches(3) [OF a] np_split_batches(4) [OF a]
  show "concatenate batches = Inr ary"
    by (auto simp: concatenate_def)
next
  assume "length ary = 1000"
  then show "\<exists>batches. np_split ary 4 = Inr batches"
    by (simp add: np_split_error)
qed

lemma np_split_four:
  "((\<exists>batches. np_split ary 4 = Inr batches) \<longleftrightarrow> 4 dvd length ary)
   \<and> (\<not> 4 dvd length ary \<longrightarrow> np_split ary 4 = Inl ValueError)
   \<and> (\<forall>batches. np_split ary 4 = Inr batches \<longrightarrow>
         length batches = 4
         \<and> (\<forall>b\<in>set batches. length b = length ary div 4
               \<and> (\<forall>m. (\<forall>row\<in>set ary. length row = m) \<longrightarrow> (\<forall>row\<in>set b. length row = m))))
   \<and> (length ary = 1000 \<longrightarrow>
         (\<exists>batches. np_split ary 4 = Inr batches \<and> (\<forall>b\<in>set batches. length b = 250)))"
proof (intro conjI allI impI ballI)
  show "(\<exists>batches. np_split ary 4 = Inr batches) \<longleftrightarrow> 4 dvd length ary"
    by (simp add: np_split_error)
next
  assume "\<not> 4 dvd length ary"
  then show "np_split ary 4 = Inl ValueError" by (simp add: np_split_error)
next
  fix batches assume a: "np_split ary 4 = Inr batches"
  show "length batches = 4" by (rule np_split_batches(3) [OF a])
  fix b assume b: "b \<in> set batches"
  show "length b = length ary div 4" using np_split_batches(5) [OF a b] by simp
  fix m row assume "\<forall>row\<in>set ary. length row = m" and "row \<in> set b"
  then show "length row = m" using np_split_batches(5) [OF a b] by auto
next
  assume l: "length ary = 1000"
  then obtain batches where a: "np_split ary 4 = Inr batches"
    by (auto simp: np_split_error)
  have "\<forall>b\<in>set batches. length b = 250"
    using np_split_batches(5) [OF a] l by simp
  with a show "\<exists>batches. np_split ary 4 = Inr batches \<and> (\<forall>b\<in>set batches. length b = 250)"
    by blast
qed

section \<open>Properties of the dispatch and collection loops\<close>

text \<open>
  In the statements below \<open>ob\<close>, \<open>oa\<close> and \<open>gz\<close> stand for the runtime's
  \<open>observe\<close>, \<open>observe_async\<close> and \<open>get_expectation_z\<close>, \<open>D\<close> and \<open>d\<close> for
  the generator's \<open>default_rng\<close> and \<open>draw\<close>, \<open>s\<close> for the notebook's
  variables, \<open>w\<close> for the runtime's state and \<open>tr\<close> for a log of calls. All of
  them are arbitrary unless a statement names an example.
\<close>

lemma append_each_result:
  "append_each call xs acc w = (exc, acc', w') \<Longrightarrow>
     \<exists>ys. acc' = acc @ ys \<and> (case exc of None \<Rightarrow> length ys = length xs | Some e \<Rightarrow> length ys < length xs)"
proof (induction xs arbitrary: acc w)
  case Nil
  then show ?case by auto
next
  case (Cons x xs)
  obtain res w1 where c: "call x w = (res, w1)" by (cases "call x w")
  show ?case
  proof (cases res)
    case (Inl e)
    with Cons.prems c show ?thesis by auto
  next
    case (Inr y)
    with Cons.prems c have "append_each call xs (acc @ [y]) w1 = (exc, acc', w')" by simp
    from Cons.IH [OF this] obtain ys where
      "acc' = (acc @ [y]) @ ys" and
      "case exc of None \<Rightarrow> length ys = length xs | Some e \<Rightarrow> length ys < length xs"
      by blast
    then have "acc' = acc @ (y # ys) \<and>
       (case exc of None \<Rightarrow> length (y # ys) = length (x # xs) | Some e \<Rightarrow> length (y # ys) < length (x # xs))"
      by (auto split: option.splits)
    then show ?thesis by blast
  qed
qed

lemma append_each_append:
  "append_each call (xs @ ys) acc w =
     (case append_each call xs acc w of
        (Some e, acc', w') \<Rightarrow> (Some e, acc', w')
      | (None, acc', w') \<Rightarrow> append_each call ys acc' w')"
  by (induction xs arbitrary: acc w) (auto split: prod.splits sum.splits option.splits)

lemma append_each_map:
  "append_each call (map f xs) acc w = append_each (\<lambda>x. call (f x)) xs acc w"
  by (induction xs arbitrary: acc w) (auto split: prod.splits sum.splits)

lemma submit_batches_jobs:
  "submit_batches oa k hm i bs acc w =
     append_each (\<lambda>(row, q). oa k hm row q) (jobs_from i bs) acc w"
  by (induction bs arbitrary: i acc w)
     (auto simp: append_each_append append_each_map split: prod.splits option.splits)

lemma jobs_from_index:
  "jobs_from i bs = concat (map (\<lambda>j. map (\<lambda>row. (row, i + j)) (bs ! j)) [0..<length bs])"
proof (induction bs arbitrary: i)
  case Nil
  show ?case by simp
next
  case (Cons b bs)
  have "[0..<length (b # bs)] = 0 # map Suc [0..<length bs]"
    by (simp add: upt_conv_Cons map_Suc_upt del: upt_Suc)
  then show ?case by (simp add: Cons.IH comp_def)
qed

lemma jobs_from_planned: "jobs_from 0 bs = planned_jobs bs"
  by (simp add: jobs_from_index planned_jobs_def)

lemma length_jobs_from: "length (jobs_from i bs) = (\<Sum>b\<leftarrow>bs. length b)"
  by (induction bs arbitrary: i) simp_all

lemma append_each_logged:
  "append_each (logged ev call) xs acc (w, tr) =
     (case append_each call xs acc w of
        (exc, acc', w') \<Rightarrow> (exc, acc', w', tr @ call_trace ev xs (drop (length acc) acc') exc))"
proof (induction xs arbitrary: acc w tr)
  case Nil
  show ?case by (simp add: call_trace_def)
next
  case (Cons x xs)
  obtain res w1 where c: "call x w = (res, w1)" by (cases "call x w")
  show ?case
  proof (cases res)
    case (Inl e)
    with c show ?thesis by (simp add: logged_def call_trace_def)
  next
    case (Inr y)
    obtain exc acc' w' where r: "append_each call xs (acc @ [y]) w1 = (exc, acc', w')"
      by (cases "append_each call xs (acc @ [y]) w1")
    from append_each_result [OF r] obtain ys where
      ys: "acc' = (acc @ [y]) @ ys" by blast
    have "append_each (logged ev call) (x # xs) acc (w, tr) =
            append_each (logged ev call) xs (acc @ [y]) (w1, tr @ [ev x (Inr y)])"
      using c Inr by (simp add: logged_def)
    also have "\<dots> = (exc, acc', w', (tr @ [ev x (Inr y)]) @ call_trace ev xs (drop (length (acc @ [y])) acc') exc)"
      using r by (simp add: Cons.IH)
    also have "(tr @ [ev x (Inr y)]) @ call_trace ev xs (drop (length (acc @ [y])) acc') exc
             = tr @ call_trace ev (x # xs) (drop (length acc) acc') exc"
      using ys by (simp add: call_trace_def split: option.splits)
    finally show ?thesis using c Inr r by simp
  qed
qed

lemma logged_observe_async_eq:
  "(\<lambda>(row, q). logged_observe_async oa k hm row q)
     = logged (\<lambda>(row, q). ObserveAsync k hm row q) (\<lambda>(row, q). oa k hm row q)"
  by (auto simp: fun_eq_iff logged_observe_async_def logged_def)

lemma logged_observe_eq:
  "logged_observe ob k hm = logged (Observe k hm) (ob k hm)"
  by (auto simp: fun_eq_iff logged_observe_def logged_def)

lemma call_trace_dispatch:
  "call_trace (\<lambda>(row, q). ObserveAsync k hm row q) jobs hs exc =
     dispatch_events k hm jobs hs
     @ (case exc of None \<Rightarrow> []
        | Some e \<Rightarrow> [ObserveAsync k hm (fst (jobs ! length hs)) (snd (jobs ! length hs)) (Inl e)])"
  by (simp add: call_trace_def dispatch_events_def case_prod_beta split: option.splits)

lemma call_trace_retrieve:
  "call_trace GetExpectationZ hs vs exc =
     retrieve_events hs vs
     @ (case exc of None \<Rightarrow> [] | Some e \<Rightarrow> [GetExpectationZ (hs ! length vs) (Inl e)])"
  by (simp add: call_trace_def retrieve_events_def)

lemma submit_batches_logged:
  "submit_batches (logged_observe_async oa) k hm 0 bs [] (w, tr) =
     (case submit_batches oa k hm 0 bs [] w of
        (exc, hs, w') \<Rightarrow>
          (exc, hs, w', tr @ call_trace (\<lambda>(row, q). ObserveAsync k hm row q) (planned_jobs bs) hs exc))"
  by (simp add: submit_batches_jobs logged_observe_async_eq append_each_logged jobs_from_planned)

lemma submit_batches_result:
  "submit_batches oa k hm 0 bs [] w = (exc, hs, w') \<Longrightarrow>
     (case exc of None \<Rightarrow> length hs = length (planned_jobs bs)
      | Some e \<Rightarrow> length hs < length (planned_jobs bs))"
  using append_each_result [of "\<lambda>(row, q). oa k hm row q" "planned_jobs bs" "[]" w exc hs w']
  by (simp add: submit_batches_jobs jobs_from_planned)

lemma collect_logged:
  "append_each (logged_get gz) hs [] (w, tr) =
     (case append_each gz hs [] w of
        (exc, vs, w') \<Rightarrow> (exc, vs, w', tr @ call_trace GetExpectationZ hs vs exc))"
  by (simp add: logged_get_def append_each_logged)

lemma collect_result:
  "append_each gz hs [] w = (exc, vs, w') \<Longrightarrow>
     (case exc of None \<Rightarrow> length vs = length hs | Some e \<Rightarrow> length vs < length hs)"
  using append_each_result [of gz hs "[]" w exc vs w'] by simp

lemma async_cell_outcome:
  assumes run: "async_cell (logged_observe_async oa) (logged_get gz) s (w, tr) = (exc, s', w', tr')"
  obtains
    (finished) hs vs where
      "exc = None" "s' = s\<lparr>asyncresults := hs, expvals := vs\<rparr>"
      "length hs = length (planned_jobs (xi s))" "length vs = length hs"
      "tr' = tr @ dispatch_events (kernel s) (h s) (planned_jobs (xi s)) hs @ retrieve_events hs vs"
  | (dispatch_failed) e hs where
      "exc = Some (RuntimeError e)" "s' = s\<lparr>asyncresults := hs\<rparr>"
      "length hs < length (planned_jobs (xi s))"
      "tr' = tr @ dispatch_events (kernel s) (h s) (planned_jobs (xi s)) hs
             @ [ObserveAsync (kernel s) (h s) (fst (planned_jobs (xi s) ! length hs))
                  (snd (planned_jobs (xi s) ! length hs)) (Inl e)]"
  | (retrieve_failed) e hs vs where
      "exc = Some (RuntimeError e)" "s' = s\<lparr>asyncresults := hs, expvals := vs\<rparr>"
      "length hs = length (planned_jobs (xi s))" "length vs < length hs"
      "tr' = tr @ dispatch_events (kernel s) (h s) (planned_jobs (xi s)) hs @ retrieve_events hs vs
             @ [GetExpectationZ (hs ! length vs) (Inl e)]"
proof -
  obtain x1 hs w1 where sub: "submit_batches oa (kernel s) (h s) 0 (xi s) [] w = (x1, hs, w1)"
    by (cases "submit_batches oa (kernel s) (h s) 0 (xi s) [] w")
  note len1 = submit_batches_result [OF sub]
  show thesis
  proof (cases x1)
    case (Some e)
    show thesis
    proof (rule dispatch_failed)
      show "exc = Some (RuntimeError e)" and "s' = s\<lparr>asyncresults := hs\<rparr>"
        using run sub Some by (auto simp: async_cell_def submit_batches_logged)
      show "length hs < length (planned_jobs (xi s))"
        using len1 Some by simp
      show "tr' = tr @ dispatch_events (kernel s) (h s) (planned_jobs (xi s)) hs
             @ [ObserveAsync (kernel s) (h s) (fst (planned_jobs (xi s) ! length hs))
                  (snd (planned_jobs (xi s) ! length hs)) (Inl e)]"
        using run sub Some
        by (auto simp: async_cell_def submit_batches_logged call_trace_dispatch)
    qed
  next
    case None
    obtain x2 vs w2 where col: "append_each gz hs [] w1 = (x2, vs, w2)"
      by (cases "append_each gz hs [] w1")
    note len2 = collect_result [OF col]
    show thesis
    proof (cases x2)
      case (Some e)
      show thesis
      proof (rule retrieve_failed)
        show "exc = Some (RuntimeError e)" and "s' = s\<lparr>asyncresults := hs, expvals := vs\<rparr>"
          using run sub None col Some
          by (auto simp: async_cell_def submit_batches_logged collect_logged)
        show "length hs = length (planned_jobs (xi s))" using len1 None by simp
        show "length vs < length hs" using len2 Some by simp
        show "tr' = tr @ dispatch_events (kernel s) (h s) (planned_jobs (xi s)) hs
               @ retrieve_events hs vs @ [GetExpectationZ (hs ! length vs) (Inl e)]"
          using run sub None col Some
          by (auto simp: async_cell_def submit_batches_logged collect_logged
                call_trace_dispatch call_trace_retrieve)
      qed
    next
      case n2: None
      show thesis
      proof (rule finished)
        show "exc = None" and "s' = s\<lparr>asyncresults := hs, expvals := vs\<rparr>"
          using run sub None col n2
          by (auto simp: async_cell_def submit_batches_logged collect_logged)
        show "length hs = length (planned_jobs (xi s))" using len1 None by simp
        show "length vs = length hs" using len2 n2 by simp
        show "tr' = tr @ dispatch_events (kernel s) (h s) (planned_jobs (xi s)) hs
               @ retrieve_events hs vs"
          using run sub None col n2
          by (auto simp: async_cell_def submit_batches_logged collect_logged
                call_trace_dispatch call_trace_retrieve)
      qed
    qed
  qed
qed

lemma async_cell_unlogged:
  "async_cell (logged_observe_async oa) (logged_get gz) s (w, tr) = (exc, s', w', tr') \<Longrightarrow>
     async_cell oa gz s w = (exc, s', w')"
  by (auto simp: async_cell_def submit_batches_logged collect_logged
       split: prod.splits option.splits)

lemma planned_jobs_rows: "map fst (planned_jobs bs) = concat bs"
proof -
  have "map fst (jobs_from i bs) = concat bs" for i
    by (induction bs arbitrary: i) (simp_all add: comp_def)
  then show ?thesis by (simp add: jobs_from_planned [symmetric])
qed

lemma length_planned_jobs: "length (planned_jobs bs) = (\<Sum>b\<leftarrow>bs. length b)"
  by (simp add: jobs_from_planned [symmetric] length_jobs_from)

lemma planned_jobs_ids:
  "map snd (planned_jobs bs) = concat (map (\<lambda>i. replicate (length (bs ! i)) i) [0..<length bs])"
proof -
  have "map snd (map (\<lambda>row. (row, i)) b) = replicate (length b) i" for i :: nat and b :: "'a list list"
    by (simp add: comp_def map_replicate_const)
  then show ?thesis
    by (simp add: planned_jobs_def map_concat comp_def)
qed

lemma planned_jobs_id_set:
  assumes "\<forall>b\<in>set bs. b \<noteq> []"
  shows "snd ` set (planned_jobs bs) = {0..<length bs}"
proof -
  have "snd ` set (planned_jobs bs) = set (map snd (planned_jobs bs))" by simp
  also have "\<dots> = (\<Union>i\<in>{0..<length bs}. set (replicate (length (bs ! i)) i))"
    by (simp add: planned_jobs_ids)
  also have "\<dots> = (\<Union>i\<in>{0..<length bs}. {i})"
  proof (rule SUP_cong)
    fix i assume "i \<in> {0..<length bs}"
    then have "bs ! i \<in> set bs" by simp
    with assms have "bs ! i \<noteq> []" by blast
    then show "set (replicate (length (bs ! i)) i) = {i}" by simp
  qed simp
  finally show ?thesis by simp
qed

lemma dispatched_append: "dispatched (xs @ ys) = dispatched xs @ dispatched ys"
  by (induction xs rule: dispatched.induct) simp_all

lemma dispatched_dispatch_events:
  "dispatched (dispatch_events k hm jobs hs) = take (length hs) jobs"
  unfolding dispatch_events_def
proof (induction jobs arbitrary: hs)
  case Nil
  show ?case by simp
next
  case (Cons j jobs)
  show ?case by (cases hs; cases j) (simp_all add: Cons.IH)
qed

lemma dispatched_retrieve_events: "dispatched (retrieve_events hs vs) = []"
  unfolding retrieve_events_def
proof (induction hs arbitrary: vs)
  case Nil
  show ?case by simp
next
  case (Cons x hs)
  show ?case by (cases vs) (simp_all add: Cons.IH)
qed

text \<open>
  Claim C2. When the asynchronous cell runs to its end, the number of expectation
  values in \<open>expvals\<close> is the number of handles in \<open>asyncresults\<close>, which is the sum
  of the numbers of rows of the batches.
\<close>

theorem collected_equals_submitted:
  "async_cell oa gz s w = (None, s', w') \<Longrightarrow>
     length (expvals s') = length (asyncresults s')
     \<and> length (asyncresults s') = (\<Sum>b\<leftarrow>xi s. length b)"
proof -
  assume run: "async_cell oa gz s w = (None, s', w')"
  obtain x1 hs w1 where sub: "submit_batches oa (kernel s) (h s) 0 (xi s) [] w = (x1, hs, w1)"
    by (cases "submit_batches oa (kernel s) (h s) 0 (xi s) [] w")
  obtain x2 vs w2 where col: "append_each gz hs [] w1 = (x2, vs, w2)"
    by (cases "append_each gz hs [] w1")
  from run sub col have none: "x1 = None" "x2 = None"
    and s': "s' = s\<lparr>asyncresults := hs, expvals := vs\<rparr>"
    by (auto simp: async_cell_def split: option.splits)
  from submit_batches_result [OF sub] none have "length hs = (\<Sum>b\<leftarrow>xi s. length b)"
    by (simp add: length_planned_jobs)
  moreover from collect_result [OF col] none have "length vs = length hs" by simp
  ultimately show ?thesis by (simp add: s')
qed

text \<open>Two batches of two rows and one row: three handles, three values.\<close>

theorem collected_equals_submitted_witness:
  "async_cell counting_observe_async ready_get example_notebook 0
     = (None, example_notebook\<lparr>asyncresults := [0, 1, 2], expvals := [0, 10, 20]\<rparr>, 6)
   \<and> length (expvals (example_notebook\<lparr>asyncresults := [0, 1, 2], expvals := [0, 10, 20]\<rparr>)) = 3
   \<and> (\<Sum>b\<leftarrow>xi example_notebook. length b) = 3"
proof -
  have run: "async_cell counting_observe_async ready_get example_notebook 0
     = (None, example_notebook\<lparr>asyncresults := [0, 1, 2], expvals := [0, 10, 20]\<rparr>, 6)"
    by (simp add: async_cell_def example_notebook_def counting_observe_async_def ready_get_def)
  from collected_equals_submitted [OF run] run show ?thesis
    by (simp add: example_notebook_def)
qed

lemma nth_dispatch_events:
  "i < length jobs \<Longrightarrow> i < length hs \<Longrightarrow>
     dispatch_events k hm jobs hs ! i = ObserveAsync k hm (fst (jobs ! i)) (snd (jobs ! i)) (Inr (hs ! i))"
  by (simp add: dispatch_events_def case_prod_beta)

lemma nth_retrieve_events:
  "i < length hs \<Longrightarrow> i < length vs \<Longrightarrow>
     retrieve_events hs vs ! i = GetExpectationZ (hs ! i) (Inr (vs ! i))"
  by (simp add: retrieve_events_def)

lemma length_dispatch_events:
  "length (dispatch_events k hm jobs hs) = min (length jobs) (length hs)"
  by (simp add: dispatch_events_def)

lemma length_retrieve_events:
  "length (retrieve_events hs vs) = min (length hs) (length vs)"
  by (simp add: retrieve_events_def)

lemma dispatch_events_not_failed: "ev \<in> set (dispatch_events k hm jobs hs) \<Longrightarrow> \<not> failed ev"
  by (auto simp: dispatch_events_def)

lemma retrieve_events_not_failed: "ev \<in> set (retrieve_events hs vs) \<Longrightarrow> \<not> failed ev"
  by (auto simp: retrieve_events_def)

text \<open>
  Claim C3. Results are retrieved in submission order. When the asynchronous cell runs
  to its end, the calls it made are: one dispatch per planned job, in the order of the
  loop, the \<open>k\<close>-th returning the \<open>k\<close>-th handle of \<open>asyncresults\<close>; then one
  retrieval per handle, in the same order, the \<open>k\<close>-th on the \<open>k\<close>-th handle and
  returning the \<open>k\<close>-th element of \<open>expvals\<close>. The cell of lines 223 to 231 is the
  same code.
\<close>

theorem results_in_submission_order:
  assumes "async_cell (logged_observe_async oa) (logged_get gz) s (w, []) = (None, s', w', tr)"
  shows "tr = dispatch_events (kernel s) (h s) (planned_jobs (xi s)) (asyncresults s')
              @ retrieve_events (asyncresults s') (expvals s')
         \<and> length (asyncresults s') = length (planned_jobs (xi s))
         \<and> length (expvals s') = length (asyncresults s')
         \<and> (\<forall>k<length (expvals s').
               tr ! k = ObserveAsync (kernel s) (h s) (fst (planned_jobs (xi s) ! k))
                          (snd (planned_jobs (xi s) ! k)) (Inr (asyncresults s' ! k))
               \<and> tr ! (length (asyncresults s') + k)
                   = GetExpectationZ (asyncresults s' ! k) (Inr (expvals s' ! k)))"
  using assms
proof (cases rule: async_cell_outcome)
  case (finished hs vs)
  have tr: "tr = dispatch_events (kernel s) (h s) (planned_jobs (xi s)) hs @ retrieve_events hs vs"
    using finished(5) by simp
  have "tr ! k = ObserveAsync (kernel s) (h s) (fst (planned_jobs (xi s) ! k))
                   (snd (planned_jobs (xi s) ! k)) (Inr (hs ! k))
        \<and> tr ! (length hs + k) = GetExpectationZ (hs ! k) (Inr (vs ! k))"
    if "k < length vs" for k
  proof -
    from that finished(3,4) have k: "k < length hs" "k < length (planned_jobs (xi s))" by simp_all
    have "tr ! k = dispatch_events (kernel s) (h s) (planned_jobs (xi s)) hs ! k"
      unfolding tr using k finished(3) by (simp add: nth_append length_dispatch_events)
    moreover have "tr ! (length hs + k) = retrieve_events hs vs ! k"
      unfolding tr using finished(3) by (simp add: nth_append length_dispatch_events)
    ultimately show ?thesis
      using k that by (simp add: nth_dispatch_events nth_retrieve_events)
  qed
  with tr finished(2,3,4) show ?thesis by simp
qed simp_all

text \<open>The three jobs of the example state, their handles 0, 1, 2 and values 0, 10, 20.\<close>

theorem results_in_submission_order_witness:
  "async_cell (logged_observe_async counting_observe_async) (logged_get ready_get)
       example_notebook (0, [])
     = (None, example_notebook\<lparr>asyncresults := [0, 1, 2], expvals := [0, 10, 20]\<rparr>, 6,
        [ObserveAsync (build_kernel 1) (SpinZ 0) [1, 2, 3] 0 (Inr 0),
         ObserveAsync (build_kernel 1) (SpinZ 0) [4, 5, 6] 0 (Inr 1),
         ObserveAsync (build_kernel 1) (SpinZ 0) [7, 8, 9] 1 (Inr 2),
         GetExpectationZ 0 (Inr 0), GetExpectationZ 1 (Inr 10), GetExpectationZ 2 (Inr 20)
           :: (nat, nat, nat, nat, string) event])
   \<and> planned_jobs (xi example_notebook) = [([1, 2, 3], 0), ([4, 5, 6], 0), ([7, 8, 9], 1)]"
proof -
  let ?tr = "[ObserveAsync (build_kernel 1) (SpinZ 0) [1, 2, 3] 0 (Inr 0),
         ObserveAsync (build_kernel 1) (SpinZ 0) [4, 5, 6] 0 (Inr 1),
         ObserveAsync (build_kernel 1) (SpinZ 0) [7, 8, 9] 1 (Inr 2),
         GetExpectationZ 0 (Inr 0), GetExpectationZ 1 (Inr 10), GetExpectationZ 2 (Inr 20)
           :: (nat, nat, nat, nat, string) event]"
  have run: "async_cell (logged_observe_async counting_observe_async) (logged_get ready_get)
       example_notebook (0, [])
     = (None, example_notebook\<lparr>asyncresults := [0, 1, 2], expvals := [0, 10, 20]\<rparr>, 6, ?tr)"
    by (simp add: async_cell_def example_notebook_def counting_observe_async_def ready_get_def
          logged_observe_async_def logged_get_def logged_def)
  from results_in_submission_order [OF run]
  have "?tr = dispatch_events (kernel example_notebook) (h example_notebook)
                (planned_jobs (xi example_notebook)) [0, 1, 2]
              @ retrieve_events [0, 1, 2] [0, 10, 20]"
    by simp
  then have "planned_jobs (xi example_notebook) = [([1, 2, 3], 0), ([4, 5, 6], 0), ([7, 8, 9], 1)]"
    by (simp add: planned_jobs_def example_notebook_def upt_rec)
  with run show ?thesis by simp
qed

lemma np_split_nonempty_batches:
  assumes "np_split ary n = Inr bs" and "ary \<noteq> []"
  shows "\<forall>b\<in>set bs. b \<noteq> []"
proof
  fix b assume b: "b \<in> set bs"
  from dvd_div_eq_0_iff [OF np_split_batches(2) [OF assms(1)]] assms(2)
  have "0 < length ary div n" by simp
  with np_split_batches(5) [OF assms(1) b] show "b \<noteq> []" by auto
qed

lemma async_cell_dispatched:
  assumes "async_cell (logged_observe_async oa) (logged_get gz) s (w, []) = (exc, s', w', tr)"
  shows "\<exists>n\<le>length (planned_jobs (xi s)). dispatched tr = take n (planned_jobs (xi s))
           \<and> (exc = None \<longrightarrow> n = length (planned_jobs (xi s)))"
  using assms
proof (cases rule: async_cell_outcome)
  case (finished hs vs)
  then show ?thesis
    by (auto simp: dispatched_append dispatched_dispatch_events dispatched_retrieve_events)
next
  case (dispatch_failed e hs)
  then have "dispatched tr = take (Suc (length hs)) (planned_jobs (xi s))"
    by (simp add: dispatched_append dispatched_dispatch_events take_Suc_conv_app_nth)
  with dispatch_failed(1,3) show ?thesis
    by (intro exI [of _ "Suc (length hs)"]) simp
next
  case (retrieve_failed e hs vs)
  then show ?thesis
    by (auto simp: dispatched_append dispatched_dispatch_events dispatched_retrieve_events)
qed

lemma run_collapse:
  "fst p = x \<Longrightarrow> p = (x, fst (snd p), fst (snd (snd p)), snd (snd (snd p)))"
  by (cases p) auto

text \<open>
  Claim C7. The driver has no recovery and no retry. When a dispatch or a retrieval
  raises, the cell stops with that exception; the failing call is the last call made,
  every call before it succeeded, and the calls made are the first planned ones, each
  once. If a dispatch raised, \<open>asyncresults\<close> holds exactly the handles of the
  dispatches before it and \<open>expvals\<close> is untouched; if a retrieval raised,
  \<open>expvals\<close> holds exactly the values of the retrievals before it.
\<close>

theorem no_recovery_no_retry:
  assumes "async_cell (logged_observe_async oa) (logged_get gz) s (w, []) = (Some x, s', w', tr)"
  shows "\<exists>e. x = RuntimeError e
           \<and> async_cell oa gz s w = (Some (RuntimeError e), s', w')
           \<and> tr \<noteq> [] \<and> failed (last tr) \<and> (\<forall>ev\<in>set (butlast tr). \<not> failed ev)
           \<and> (length (asyncresults s') < length (planned_jobs (xi s))
                \<and> expvals s' = expvals s
                \<and> tr = dispatch_events (kernel s) (h s) (planned_jobs (xi s)) (asyncresults s')
                       @ [ObserveAsync (kernel s) (h s)
                            (fst (planned_jobs (xi s) ! length (asyncresults s')))
                            (snd (planned_jobs (xi s) ! length (asyncresults s'))) (Inl e)]
              \<or> length (asyncresults s') = length (planned_jobs (xi s))
                \<and> length (expvals s') < length (asyncresults s')
                \<and> tr = dispatch_events (kernel s) (h s) (planned_jobs (xi s)) (asyncresults s')
                       @ retrieve_events (asyncresults s') (expvals s')
                       @ [GetExpectationZ (asyncresults s' ! length (expvals s')) (Inl e)])"
  using assms
proof (cases rule: async_cell_outcome)
  case (dispatch_failed e hs)
  let ?ds = "dispatch_events (kernel s) (h s) (planned_jobs (xi s)) hs"
  let ?f = "ObserveAsync (kernel s) (h s) (fst (planned_jobs (xi s) ! length hs))
              (snd (planned_jobs (xi s) ! length hs)) (Inl e)"
  have tr: "tr = ?ds @ [?f]" using dispatch_failed(4) by simp
  have "butlast tr = ?ds" and "last tr = ?f" unfolding tr by simp_all
  then have "tr \<noteq> [] \<and> failed (last tr) \<and> (\<forall>ev\<in>set (butlast tr). \<not> failed ev)"
    using tr by (auto dest: dispatch_events_not_failed)
  moreover have "async_cell oa gz s w = (Some (RuntimeError e), s', w')"
    using async_cell_unlogged [OF assms] dispatch_failed(1) by simp
  ultimately show ?thesis
    using dispatch_failed(1,2,3) tr by simp
next
  case (retrieve_failed e hs vs)
  let ?ds = "dispatch_events (kernel s) (h s) (planned_jobs (xi s)) hs"
  let ?f = "GetExpectationZ (hs ! length vs) (Inl e)"
  have tr: "tr = (?ds @ retrieve_events hs vs) @ [?f]" using retrieve_failed(5) by simp
  have "butlast tr = ?ds @ retrieve_events hs vs" and "last tr = ?f"
    unfolding tr by (simp_all add: butlast_append)
  then have "tr \<noteq> [] \<and> failed (last tr) \<and> (\<forall>ev\<in>set (butlast tr). \<not> failed ev)"
    using tr by (auto dest: dispatch_events_not_failed retrieve_events_not_failed)
  moreover have "async_cell oa gz s w = (Some (RuntimeError e), s', w')"
    using async_cell_unlogged [OF assms] retrieve_failed(1) by simp
  ultimately show ?thesis
    using retrieve_failed(1,2,3,4) tr by simp
qed simp

text \<open>
  On the example state: the third dispatch raises, leaving two handles and the old
  \<open>expvals\<close>; and the retrieval on handle 1 raises, leaving one value.
\<close>

theorem no_recovery_no_retry_witness:
  "async_cell (logged_observe_async (failing_observe_async 2)) (logged_get ready_get)
       example_notebook (0, [])
     = (Some (RuntimeError ''device lost''), example_notebook\<lparr>asyncresults := [0, 1]\<rparr>, 3,
        [ObserveAsync (build_kernel 1) (SpinZ 0) [1, 2, 3] 0 (Inr 0),
         ObserveAsync (build_kernel 1) (SpinZ 0) [4, 5, 6] 0 (Inr 1),
         ObserveAsync (build_kernel 1) (SpinZ 0) [7, 8, 9] 1 (Inl ''device lost'')
           :: (nat, nat, nat, nat, string) event])
   \<and> expvals (example_notebook\<lparr>asyncresults := [0, 1]\<rparr>) = [77]
   \<and> async_cell (logged_observe_async counting_observe_async) (logged_get (failing_get 1))
       example_notebook (0, [])
     = (Some (RuntimeError ''job failed''),
        example_notebook\<lparr>asyncresults := [0, 1, 2], expvals := [0]\<rparr>, 5,
        [ObserveAsync (build_kernel 1) (SpinZ 0) [1, 2, 3] 0 (Inr 0),
         ObserveAsync (build_kernel 1) (SpinZ 0) [4, 5, 6] 0 (Inr 1),
         ObserveAsync (build_kernel 1) (SpinZ 0) [7, 8, 9] 1 (Inr 2),
         GetExpectationZ 0 (Inr 0), GetExpectationZ 1 (Inl ''job failed'')
           :: (nat, nat, nat, nat, string) event])
   \<and> async_cell (failing_observe_async 2) ready_get example_notebook 0
     = (Some (RuntimeError ''device lost''), example_notebook\<lparr>asyncresults := [0, 1]\<rparr>, 3)"
proof -
  have run1: "async_cell (logged_observe_async (failing_observe_async 2)) (logged_get ready_get)
       example_notebook (0, [])
     = (Some (RuntimeError ''device lost''), example_notebook\<lparr>asyncresults := [0, 1]\<rparr>, 3,
        [ObserveAsync (build_kernel 1) (SpinZ 0) [1, 2, 3] 0 (Inr 0),
         ObserveAsync (build_kernel 1) (SpinZ 0) [4, 5, 6] 0 (Inr 1),
         ObserveAsync (build_kernel 1) (SpinZ 0) [7, 8, 9] 1 (Inl ''device lost'')
           :: (nat, nat, nat, nat, string) event])"
    by (simp add: async_cell_def example_notebook_def failing_observe_async_def ready_get_def
          logged_observe_async_def logged_get_def logged_def)
  have run2: "async_cell (logged_observe_async counting_observe_async) (logged_get (failing_get 1))
       example_notebook (0, [])
     = (Some (RuntimeError ''job failed''),
        example_notebook\<lparr>asyncresults := [0, 1, 2], expvals := [0]\<rparr>, 5,
        [ObserveAsync (build_kernel 1) (SpinZ 0) [1, 2, 3] 0 (Inr 0),
         ObserveAsync (build_kernel 1) (SpinZ 0) [4, 5, 6] 0 (Inr 1),
         ObserveAsync (build_kernel 1) (SpinZ 0) [7, 8, 9] 1 (Inr 2),
         GetExpectationZ 0 (Inr 0), GetExpectationZ 1 (Inl ''job failed'')
           :: (nat, nat, nat, nat, string) event])"
    by (simp add: async_cell_def example_notebook_def counting_observe_async_def failing_get_def
          logged_observe_async_def logged_get_def logged_def)
  from no_recovery_no_retry [OF run1]
  have "async_cell (failing_observe_async 2) ready_get example_notebook 0
     = (Some (RuntimeError ''device lost''), example_notebook\<lparr>asyncresults := [0, 1]\<rparr>, 3)"
    by auto
  moreover from no_recovery_no_retry [OF run2]
  have "length (expvals (example_notebook\<lparr>asyncresults := [0, 1, 2], expvals := [0]\<rparr>))
          < length (asyncresults (example_notebook\<lparr>asyncresults := [0, 1, 2], expvals := [0]\<rparr>))"
    by simp
  ultimately show ?thesis
    using run1 run2 by (simp add: example_notebook_def)
qed

section \<open>Properties of the kernels and the parameter arrays\<close>

lemma length_draws: "length (fst (draws draw m g)) = m"
proof (induction m arbitrary: g)
  case 0
  show ?case by simp
next
  case (Suc m)
  obtain x g1 where d: "draw g = (x, g1)" by (cases "draw g")
  obtain xs g2 where r: "draws draw m g1 = (xs, g2)" by (cases "draws draw m g1")
  from Suc [of g1] r have "length xs = m" by simp
  with d r show ?case by simp
qed

lemma draw_rows_shape:
  "length (fst (draw_rows draw n m g)) = n
   \<and> (\<forall>row\<in>set (fst (draw_rows draw n m g)). length row = m)"
proof (induction n arbitrary: g)
  case 0
  show ?case by simp
next
  case (Suc n)
  obtain row g1 where d: "draws draw m g = (row, g1)" by (cases "draws draw m g")
  obtain rows g2 where r: "draw_rows draw n m g1 = (rows, g2)" by (cases "draw_rows draw n m g1")
  from length_draws [of draw m g] d have "length row = m" by simp
  moreover from Suc [of g1] r have "length rows = n \<and> (\<forall>x\<in>set rows. length x = m)" by simp
  ultimately show ?case using d r by simp
qed

lemma uniform_shape:
  "length (uniform draw g (n, m)) = n"
  "row \<in> set (uniform draw g (n, m)) \<Longrightarrow> length row = m"
  using draw_rows_shape [of draw n m g] by (simp_all add: uniform_def)

lemma ops_fold_apply_gate:
  "ops (fold (\<lambda>x. apply_gate (g x)) xs k) = ops k @ map g xs"
  by (induction xs arbitrary: k) (simp_all add: apply_gate_def)

lemma ops_fold_apply_gate2:
  "ops (fold (\<lambda>(a, b). apply_gate (g a b)) xs k) = ops k @ map (\<lambda>(a, b). g a b) xs"
  by (induction xs arbitrary: k) (auto simp: apply_gate_def)

lemma fold_max_shifted:
  "fold (\<lambda>p. max (Suc p)) (map (\<lambda>i. i + c) [0..<n]) m0 = (if n = 0 then m0 else max (n + c) m0)"
  by (induction n) auto

lemma fold_max_upt:
  "fold (\<lambda>p. max (Suc p)) [0..<n] m0 = (if n = 0 then m0 else max n m0)"
  using fold_max_shifted [of 0 n m0] by simp

lemma gate_params_cz: "concat (map gate_params (map (\<lambda>(q1, q2). CZ q1 q2) zs)) = []"
  by (induction zs) auto

lemma param_count_build_kernel: "param_count (build_kernel nq) = 3 * nq"
proof -
  let ?cz = "map (\<lambda>(q1, q2). CZ q1 q2) (zip (every_other [0..<nq]) (every_other (drop 1 [0..<nq])))"
  have "ops (build_kernel nq) =
      ((map (\<lambda>i. RX i i) [0..<nq] @ map (\<lambda>i. RY (i + nq) i) [0..<nq])
      @ map (\<lambda>i. RZ (i + nq * 2) i) [0..<nq]) @ ?cz"
    unfolding build_kernel_def Let_def ops_fold_apply_gate2 ops_fold_apply_gate
    by (simp add: qalloc_def make_kernel_def)
  then have "concat (map gate_params (ops (build_kernel nq))) =
      [0..<nq] @ map (\<lambda>i. i + nq) [0..<nq] @ map (\<lambda>i. i + nq * 2) [0..<nq]"
    by (simp only: map_append concat_append gate_params_cz append_Nil2 append_assoc)
       (simp add: comp_def)
  then have "param_count (build_kernel nq) =
      fold (\<lambda>p. max (Suc p)) (map (\<lambda>i. i + nq * 2) [0..<nq])
        (fold (\<lambda>p. max (Suc p)) (map (\<lambda>i. i + nq) [0..<nq])
           (fold (\<lambda>p. max (Suc p)) [0..<nq] 0))"
    by (simp only: param_count_def fold_append comp_apply)
  then show ?thesis
    by (simp only: fold_max_upt fold_max_shifted) simp
qed

lemma param_count_build_rx_kernel: "param_count (build_rx_kernel nq) = nq"
proof -
  have "ops (build_rx_kernel nq) = map (\<lambda>i. RX i i) [0..<nq]"
    by (simp add: build_rx_kernel_def ops_fold_apply_gate qalloc_def make_kernel_def)
  then have "concat (map gate_params (ops (build_rx_kernel nq))) = [0..<nq]"
    by (simp add: comp_def)
  then have "param_count (build_rx_kernel nq) = fold (\<lambda>p. max (Suc p)) [0..<nq] 0"
    by (simp only: param_count_def)
  then show ?thesis by (simp only: fold_max_upt) simp
qed

section \<open>Shape consistency of the dispatches\<close>

lemma call_trace_all:
  assumes "\<And>x r. x \<in> set xs \<Longrightarrow> P (ev x r)"
    and "case exc of None \<Rightarrow> length ys = length xs | Some e \<Rightarrow> length ys < length xs"
  shows "list_all P (call_trace ev xs ys exc)"
proof -
  have "list_all P (map (\<lambda>(x, y). ev x (Inr y)) (zip xs ys))"
    using assms(1) by (auto simp: list_all_iff dest: set_zip_leftD)
  moreover have "list_all P (case exc of None \<Rightarrow> [] | Some e \<Rightarrow> [ev (xs ! length ys) (Inl e)])"
    using assms by (auto split: option.splits)
  ultimately show ?thesis by (simp add: call_trace_def)
qed

lemma append_each_logged_all:
  assumes "append_each (logged ev call) xs [] (w, tr) = (exc, ys, w', tr')"
    and "\<And>x r. x \<in> set xs \<Longrightarrow> P (ev x r)" and "list_all P tr"
  shows "list_all P tr'"
proof -
  obtain exc0 ys0 w0 where r: "append_each call xs [] w = (exc0, ys0, w0)"
    by (cases "append_each call xs [] w")
  from assms(1) r have t: "tr' = tr @ call_trace ev xs ys0 exc0"
    by (auto simp: append_each_logged)
  from append_each_result [OF r]
  have "case exc0 of None \<Rightarrow> length ys0 = length xs | Some e \<Rightarrow> length ys0 < length xs" by simp
  from call_trace_all [where xs = xs and P = P and ev = ev and exc = exc0 and ys = ys0,
      OF assms(2) this] assms(3) show ?thesis
    unfolding t by simp
qed

lemma shape_ok_dispatch_events:
  assumes "\<And>row q. (row, q) \<in> set jobs \<Longrightarrow> length row = param_count k"
  shows "list_all shape_ok (dispatch_events k hm jobs hs)"
  using assms by (auto simp: dispatch_events_def list_all_iff dest: set_zip_leftD)

lemma shape_ok_retrieve_events: "list_all shape_ok (retrieve_events hs vs)"
  by (auto simp: retrieve_events_def list_all_iff)

lemma planned_jobs_row:
  "(row, q) \<in> set (planned_jobs bs) \<Longrightarrow> \<exists>b\<in>set bs. row \<in> set b"
proof -
  assume "(row, q) \<in> set (planned_jobs bs)"
  then have "row \<in> set (map fst (planned_jobs bs))" by force
  then show ?thesis by (simp add: planned_jobs_rows)
qed

lemma async_cell_shapes:
  assumes run: "async_cell (logged_observe_async oa) (logged_get gz) s (w, tr) = (exc, s', w', tr')"
    and fit: "\<forall>b\<in>set (xi s). \<forall>row\<in>set b. length row = param_count (kernel s)"
    and ok: "list_all shape_ok tr"
  shows "list_all shape_ok tr'"
proof -
  have jobs: "length row = param_count (kernel s)" if "(row, q) \<in> set (planned_jobs (xi s))" for row q
    using planned_jobs_row [OF that] fit by blast
  note ds = shape_ok_dispatch_events [OF jobs]
  from run show ?thesis
  proof (cases rule: async_cell_outcome)
    case (finished hs vs)
    with ok show ?thesis by (simp add: shape_ok_retrieve_events ds)
  next
    case (dispatch_failed e hs)
    from dispatch_failed(3) have "planned_jobs (xi s) ! length hs \<in> set (planned_jobs (xi s))"
      by simp
    then have "length (fst (planned_jobs (xi s) ! length hs)) = param_count (kernel s)"
      using jobs by (metis prod.collapse)
    with dispatch_failed(4) ok show ?thesis by (simp add: ds)
  next
    case (retrieve_failed e hs vs)
    with ok show ?thesis by (simp add: shape_ok_retrieve_events ds)
  qed
qed

lemma logged_observe_async_row:
  "(\<lambda>row. logged_observe_async oa k hm row q)
     = logged (\<lambda>row. ObserveAsync k hm row q) (\<lambda>row. oa k hm row q)"
  by (auto simp: fun_eq_iff logged_observe_async_def logged_def)

lemma setup_20q_fields:
  "n_qubits (setup_20q D d s) = 20" "n_samples (setup_20q D d s) = 1000"
  "n_parameters (setup_20q D d s) = 60" "h (setup_20q D d s) = SpinZ 0"
  "kernel (setup_20q D d s) = build_kernel 20"
  "parameters (setup_20q D d s) = uniform d (D 13) (1000, 60)"
  by (simp_all add: setup_20q_def generate_parameters_def Let_def)

lemma setup_10q_fields:
  "n_qubits (setup_10q D d s) = 10" "n_samples (setup_10q D d s) = 1000"
  "n_parameters (setup_10q D d s) = 30" "h (setup_10q D d s) = h s"
  "kernel (setup_10q D d s) = build_kernel 10" "xi (setup_10q D d s) = xi s"
  "parameters (setup_10q D d s) = uniform d (D 13) (1000, 30)"
  by (simp_all add: setup_10q_def generate_parameters_def Let_def)

lemma setup_two_kernels_fields:
  "n_qubits (setup_two_kernels D d s) = 10" "n_samples (setup_two_kernels D d s) = 500"
  "n_parameters (setup_two_kernels D d s) = 10" "h (setup_two_kernels D d s) = SpinZ 0"
  "kernel (setup_two_kernels D d s) = kernel s" "xi (setup_two_kernels D d s) = xi s"
  "kernel1 (setup_two_kernels D d s) = build_rx_kernel 10"
  "kernel2 (setup_two_kernels D d s) = build_rx_kernel 10"
  "parameters (setup_two_kernels D d s) = uniform d (D 13) (500, 10)"
  by (simp_all add: setup_two_kernels_def generate_parameters_def Let_def)

lemma scaling_cell_fields:
  assumes "scaling_cell D d ob s w = (exc, s', w')"
  shows "h s' = SpinZ 0" "kernel s' = build_kernel 20"
    "parameters s' = uniform d (D 13) (1000, 60)"
  using assms
  by (auto simp: scaling_cell_def Let_def setup_20q_fields split: prod.splits option.splits)

lemma scaling_cell_shapes:
  assumes run: "scaling_cell D d (logged_observe ob) s (w, tr) = (exc, s', w', tr')"
    and ok: "list_all shape_ok tr"
  shows "list_all shape_ok tr'"
proof -
  let ?s1 = "setup_20q D d s"
  obtain x rs w1 t1 where
    r: "append_each (logged (Observe (kernel ?s1) (h ?s1)) (ob (kernel ?s1) (h ?s1)))
          (parameters ?s1) [] (w, tr) = (x, rs, w1, t1)"
    by (metis prod.collapse)
  have "shape_ok (Observe (kernel ?s1) (h ?s1) row res)" if "row \<in> set (parameters ?s1)" for row res
    using that uniform_shape(2) [of row d "D 13" 1000 60]
    by (simp add: setup_20q_fields param_count_build_kernel)
  from append_each_logged_all [OF r this ok] have "list_all shape_ok t1" by simp
  moreover from run r have "tr' = t1"
    by (auto simp: scaling_cell_def Let_def logged_observe_eq split: option.splits)
  ultimately show ?thesis by simp
qed

lemma split_cell_fields:
  assumes "split_cell s w = (exc, s', w')"
  shows "w' = w" "h s' = h s" "kernel s' = kernel s" "parameters s' = parameters s"
    "exc = None \<Longrightarrow> np_split (parameters s) 4 = Inr (xi s')"
  using assms by (auto simp: split_cell_def split: sum.splits)

lemma async_cell_fields:
  assumes "async_cell oa gz s w = (exc, s', w')"
  shows "h s' = h s" "kernel s' = kernel s" "parameters s' = parameters s" "xi s' = xi s"
    "n_qubits s' = n_qubits s" "n_parameters s' = n_parameters s"
    "kernel1 s' = kernel1 s" "kernel2 s' = kernel2 s"
  using assms by (auto simp: async_cell_def split: prod.splits option.splits)

lemma two_kernels_cell_fields:
  assumes "two_kernels_cell oa s w = (exc, s', w')"
  shows "n_qubits s' = n_qubits s" "n_parameters s' = n_parameters s"
    "parameters s' = parameters s"
  using assms by (auto simp: two_kernels_cell_def Let_def split: prod.splits option.splits)

lemma two_kernels_cell_shapes:
  assumes run: "two_kernels_cell (logged_observe_async oa) s (w, tr) = (exc, s', w', tr')"
    and fit: "\<forall>row\<in>set (parameters s).
                length row = param_count (kernel1 s) \<and> length row = param_count (kernel2 s)"
    and ok: "list_all shape_ok tr"
  shows "list_all shape_ok tr'"
proof -
  obtain x1 hs w1 t1 where
    r1: "append_each (logged (\<lambda>row. ObserveAsync (kernel1 s) (h s) row 0)
           (\<lambda>row. oa (kernel1 s) (h s) row 0)) (parameters s) [] (w, tr) = (x1, hs, w1, t1)"
    by (metis prod.collapse)
  have "shape_ok (ObserveAsync (kernel1 s) (h s) row 0 res)" if "row \<in> set (parameters s)" for row res
    using that fit by auto
  from append_each_logged_all [OF r1 this ok] have ok1: "list_all shape_ok t1" by simp
  obtain x2 hs' w2 t2 where
    r2: "append_each (logged (\<lambda>row. ObserveAsync (kernel2 s) (h s) row 1)
           (\<lambda>row. oa (kernel2 s) (h s) row 1)) (parameters s) [] (w1, t1) = (x2, hs', w2, t2)"
    by (metis prod.collapse)
  have "shape_ok (ObserveAsync (kernel2 s) (h s) row 1 res)" if "row \<in> set (parameters s)" for row res
    using that fit by auto
  from append_each_logged_all [OF r2 this ok1] have ok2: "list_all shape_ok t2" by simp
  from run r1 r2 have "tr' = t1 \<or> tr' = t2"
    by (auto simp: two_kernels_cell_def Let_def logged_observe_async_row split: option.splits)
  with ok1 ok2 show ?thesis by auto
qed

lemma then_cell_cases:
  assumes "then_cell c1 c2 s w = (exc, s', w')"
  obtains (stopped) e where "c1 s w = (Some e, s', w')" "exc = Some e"
  | (continued) s1 w1 where "c1 s w = (None, s1, w1)" "c2 s1 w1 = (exc, s', w')"
  using assms by (auto simp: then_cell_def split: prod.splits option.splits)

lemma batching_run_shapes:
  assumes run: "batching_run D d (logged_observe ob) (logged_observe_async oa) (logged_get gz)
                  s (w, []) = (exc, s', w', tr)"
  shows "list_all shape_ok tr"
  using run [unfolded batching_run_def]
proof (cases rule: then_cell_cases)
  case (stopped e)
  from scaling_cell_shapes [OF stopped(1)] show ?thesis by simp
next
  case (continued s1 wl1)
  obtain w1 t1 where wl1: "wl1 = (w1, t1)" by (cases wl1)
  note c1 = continued(1) [unfolded wl1]
  have ok1: "list_all shape_ok t1" by (rule scaling_cell_shapes [OF c1]) simp
  note f1 = scaling_cell_fields [OF c1]
  from continued(2) show ?thesis
  proof (cases rule: then_cell_cases)
    case (stopped e)
    from split_cell_fields(1) [OF stopped(1)] wl1 ok1 show ?thesis by simp
  next
    case (continued s2 wl2)
    note f2 = split_cell_fields [OF continued(1)]
    from continued(2) f2(1) wl1
    have c3: "async_cell (logged_observe_async oa) (logged_get gz) s2 (w1, t1) = (exc, s', w', tr)"
      by simp
    have "\<forall>b\<in>set (xi s2). \<forall>row\<in>set b. length row = param_count (kernel s2)"
    proof (intro ballI)
      fix b row assume b: "b \<in> set (xi s2)" and r: "row \<in> set b"
      from np_split_batches(5) [OF f2(5) b] r have "row \<in> set (parameters s1)" by auto
      then have "length row = 60"
        using uniform_shape(2) [of row d "D 13" 1000 60] by (simp add: f1)
      then show "length row = param_count (kernel s2)"
        by (simp add: f2 f1 param_count_build_kernel)
    qed
    from async_cell_shapes [OF c3 this ok1] show ?thesis .
  qed
qed

lemma two_kernels_run_shapes:
  assumes run: "two_kernels_run D d (logged_observe_async oa) s (w, []) = (exc, s', w', tr)"
  shows "list_all shape_ok tr"
proof -
  let ?s1 = "setup_two_kernels D d s"
  from run have c: "two_kernels_cell (logged_observe_async oa) ?s1 (w, []) = (exc, s', w', tr)"
    by (simp add: two_kernels_run_def then_cell_def assign_cell_def)
  have "\<forall>row\<in>set (parameters ?s1).
          length row = param_count (kernel1 ?s1) \<and> length row = param_count (kernel2 ?s1)"
    using uniform_shape(2) [of _ d "D 13" 500 10]
    by (simp add: setup_two_kernels_fields param_count_build_rx_kernel)
  from two_kernels_cell_shapes [OF c this] show ?thesis by simp
qed

text \<open>
  Claim C5, as amended. Every dispatch of the cells up to the first asynchronous
  collection (lines 76 and 121) and of the two-kernel cells (lines 241 and 243) passes
  a vector as long as the parameter count of the kernel dispatched, whatever the
  runtime does. The parameter array of a cell has \<open>n_samples\<close> rows of
  \<open>n_parameters\<close> entries, where \<open>n_parameters\<close> is the parameter count of the
  kernels of that cell: \<open>3 * n_qubits\<close> in the 20-qubit and the 10-qubit cell,
  \<open>n_qubits\<close> in the two-kernel cell.
\<close>

theorem shape_consistency_by_cell:
  "(\<forall>exc s' w' tr.
      batching_run D d (logged_observe ob) (logged_observe_async oa) (logged_get gz) s (w, [])
        = (exc, s', w', tr) \<longrightarrow> list_all shape_ok tr)
   \<and> (\<forall>exc s' w' tr.
      two_kernels_run D d (logged_observe_async oa) s (w, []) = (exc, s', w', tr)
        \<longrightarrow> list_all shape_ok tr)
   \<and> (let s1 = setup_20q D d s
      in length (parameters s1) = n_samples s1
         \<and> list_all (\<lambda>row. length row = n_parameters s1) (parameters s1)
         \<and> n_parameters s1 = 3 * n_qubits s1 \<and> param_count (kernel s1) = n_parameters s1)
   \<and> (let s2 = setup_10q D d s
      in length (parameters s2) = n_samples s2
         \<and> list_all (\<lambda>row. length row = n_parameters s2) (parameters s2)
         \<and> n_parameters s2 = 3 * n_qubits s2 \<and> param_count (kernel s2) = n_parameters s2)
   \<and> (let s3 = setup_two_kernels D d s
      in length (parameters s3) = n_samples s3
         \<and> list_all (\<lambda>row. length row = n_parameters s3) (parameters s3)
         \<and> n_parameters s3 = n_qubits s3
         \<and> param_count (kernel1 s3) = n_parameters s3
         \<and> param_count (kernel2 s3) = n_parameters s3)"
proof (intro conjI allI impI)
  fix exc s' w' tr
  assume "batching_run D d (logged_observe ob) (logged_observe_async oa) (logged_get gz) s (w, [])
        = (exc, s', w', tr)"
  then show "list_all shape_ok tr" by (rule batching_run_shapes)
next
  fix exc s' w' tr
  assume "two_kernels_run D d (logged_observe_async oa) s (w, []) = (exc, s', w', tr)"
  then show "list_all shape_ok tr" by (rule two_kernels_run_shapes)
next
  show "let s1 = setup_20q D d s
      in length (parameters s1) = n_samples s1
         \<and> list_all (\<lambda>row. length row = n_parameters s1) (parameters s1)
         \<and> n_parameters s1 = 3 * n_qubits s1 \<and> param_count (kernel s1) = n_parameters s1"
    by (simp add: Let_def setup_20q_fields uniform_shape list_all_iff param_count_build_kernel)
next
  show "let s2 = setup_10q D d s
      in length (parameters s2) = n_samples s2
         \<and> list_all (\<lambda>row. length row = n_parameters s2) (parameters s2)
         \<and> n_parameters s2 = 3 * n_qubits s2 \<and> param_count (kernel s2) = n_parameters s2"
    by (simp add: Let_def setup_10q_fields uniform_shape list_all_iff param_count_build_kernel)
next
  show "let s3 = setup_two_kernels D d s
      in length (parameters s3) = n_samples s3
         \<and> list_all (\<lambda>row. length row = n_parameters s3) (parameters s3)
         \<and> n_parameters s3 = n_qubits s3
         \<and> param_count (kernel1 s3) = n_parameters s3
         \<and> param_count (kernel2 s3) = n_parameters s3"
    by (simp add: Let_def setup_two_kernels_fields uniform_shape list_all_iff
          param_count_build_rx_kernel)
qed

lemma append_each_never_fails:
  assumes "\<And>x w. \<not> isl (fst (call x w))"
  shows "\<exists>ys w'. append_each call xs acc w = (None, ys, w')"
proof (induction xs arbitrary: acc w)
  case Nil
  show ?case by simp
next
  case (Cons x xs)
  obtain res w1 where c: "call x w = (res, w1)" by (cases "call x w")
  with assms [of x w] obtain y where "res = Inr y" by (cases res) auto
  with c Cons [of "acc @ [y]" w1] show ?case by simp
qed

lemma append_each_logged_grows:
  assumes "append_each (logged ev call) xs acc (w, tr) = (exc, ys, w', tr')"
  shows "\<exists>new. tr' = tr @ new"
  using assms by (auto simp: append_each_logged split: prod.splits)

lemma counting_never_fails:
  "\<not> isl (fst (logged_observe counting_observe k hm row wl1))"
  "\<not> isl (fst (logged_observe_async counting_observe_async k hm row q wl2))"
  "\<not> isl (fst (logged_get ready_get fut wl3))"
  by (simp_all add: logged_observe_def logged_observe_async_def logged_get_def logged_def
        counting_observe_def counting_observe_async_def ready_get_def)

lemma scaling_cell_counting:
  "\<exists>s' wl'. scaling_cell D d (logged_observe counting_observe) s wl = (None, s', wl')"
proof -
  let ?s1 = "setup_20q D d s"
  have "\<exists>ys wl'. append_each (logged_observe counting_observe (kernel ?s1) (h ?s1))
       (parameters ?s1) [] wl = (None, ys, wl')"
    by (rule append_each_never_fails) (rule counting_never_fails(1))
  then show ?thesis by (auto simp: scaling_cell_def Let_def)
qed

lemma async_cell_counting:
  "\<exists>s' wl'. async_cell (logged_observe_async counting_observe_async) (logged_get ready_get) s wl
              = (None, s', wl')"
proof -
  let ?oa = "logged_observe_async counting_observe_async"
  have "\<exists>hs wl1. append_each (\<lambda>(row, q). ?oa (kernel s) (h s) row q) (jobs_from 0 (xi s)) [] wl
          = (None, hs, wl1)"
    by (rule append_each_never_fails) (simp add: case_prod_beta counting_never_fails(2))
  then obtain hs wl1 where
    sub: "submit_batches ?oa (kernel s) (h s) 0 (xi s) [] wl = (None, hs, wl1)"
    by (auto simp: submit_batches_jobs)
  have "\<exists>vs wl2. append_each (logged_get ready_get) hs [] wl1 = (None, vs, wl2)"
    by (rule append_each_never_fails) (rule counting_never_fails(3))
  with sub show ?thesis by (auto simp: async_cell_def)
qed

lemma two_kernels_cell_counting:
  "\<exists>s' wl'. two_kernels_cell (logged_observe_async counting_observe_async) s wl = (None, s', wl')"
proof -
  let ?oa = "logged_observe_async counting_observe_async"
  have "\<exists>hs wl1. append_each (\<lambda>row. ?oa (kernel1 s) (h s) row 0) (parameters s) [] wl
          = (None, hs, wl1)"
    by (rule append_each_never_fails) (rule counting_never_fails(2))
  then obtain hs wl1 where
    r1: "append_each (\<lambda>row. ?oa (kernel1 s) (h s) row 0) (parameters s) [] wl = (None, hs, wl1)"
    by blast
  have "\<exists>hs' wl2. append_each (\<lambda>row. ?oa (kernel2 s) (h s) row 1) (parameters s) [] wl1
          = (None, hs', wl2)"
    by (rule append_each_never_fails) (rule counting_never_fails(2))
  with r1 show ?thesis by (auto simp: two_kernels_cell_def Let_def)
qed

lemma two_kernels_cell_grows:
  assumes "two_kernels_cell (logged_observe_async oa) s (w, tr) = (exc, s', w', tr')"
  shows "\<exists>new. tr' = tr @ new"
proof -
  obtain x1 hs w1 t1 where
    r1: "append_each (logged (\<lambda>row. ObserveAsync (kernel1 s) (h s) row 0)
           (\<lambda>row. oa (kernel1 s) (h s) row 0)) (parameters s) [] (w, tr) = (x1, hs, w1, t1)"
    by (metis prod.collapse)
  obtain x2 hs' w2 t2 where
    r2: "append_each (logged (\<lambda>row. ObserveAsync (kernel2 s) (h s) row 1)
           (\<lambda>row. oa (kernel2 s) (h s) row 1)) (parameters s) [] (w1, t1) = (x2, hs', w2, t2)"
    by (metis prod.collapse)
  from append_each_logged_grows [OF r1] obtain n1 where n1: "t1 = tr @ n1" by blast
  from append_each_logged_grows [OF r2] obtain n2 where n2: "t2 = t1 @ n2" by blast
  from assms r1 r2 have "tr' = t1 \<or> tr' = t2"
    by (auto simp: two_kernels_cell_def Let_def logged_observe_async_row split: option.splits)
  with n1 n2 show ?thesis by auto
qed

lemma async_cell_first_dispatch:
  assumes run: "async_cell (logged_observe_async oa) (logged_get gz) s (w, tr) = (exc, s', w', tr')"
    and b: "xi s = b # bs" and r: "b = row # rows"
  shows "\<exists>res. ObserveAsync (kernel s) (h s) row 0 res \<in> set tr'"
proof -
  have j: "planned_jobs (xi s) = (row, 0) # map (\<lambda>row. (row, 0)) rows @ jobs_from 1 bs"
    by (simp add: jobs_from_planned [symmetric] b r)
  from run show ?thesis
  proof (cases rule: async_cell_outcome)
    case (finished hs vs)
    from finished(3) j obtain fut hs1 where "hs = fut # hs1" by (cases hs) auto
    with finished(5) j show ?thesis by (auto simp: dispatch_events_def)
  next
    case (dispatch_failed e hs)
    show ?thesis
    proof (cases hs)
      case Nil
      with dispatch_failed(4) j show ?thesis by (auto simp: dispatch_events_def)
    next
      case (Cons fut hs1)
      with dispatch_failed(4) j show ?thesis by (auto simp: dispatch_events_def)
    qed
  next
    case (retrieve_failed e hs vs)
    from retrieve_failed(3) j obtain fut hs1 where "hs = fut # hs1" by (cases hs) auto
    with retrieve_failed(5) j show ?thesis by (auto simp: dispatch_events_def)
  qed
qed

text \<open>
  With the counting generator and runtime, on the example state: every dispatch of
  the two runs fits its kernel; 60 entries for the 20-qubit kernel, 10 for the
  two-kernel cell.
\<close>

theorem shape_consistency_by_cell_witness:
  "list_all shape_ok (snd (snd (snd (batching_run counting_rng counting_draw
       (logged_observe counting_observe) (logged_observe_async counting_observe_async)
       (logged_get ready_get) example_notebook
       (0, [] :: (nat, nat, nat, nat, string) event list)))))
   \<and> list_all shape_ok (snd (snd (snd (two_kernels_run counting_rng counting_draw
       (logged_observe_async counting_observe_async) example_notebook
       (0, [] :: (nat, nat, nat, nat, string) event list)))))
   \<and> n_parameters (setup_20q counting_rng counting_draw example_notebook) = 60
   \<and> param_count (kernel (setup_20q counting_rng counting_draw example_notebook)) = 60
   \<and> n_parameters (setup_two_kernels counting_rng counting_draw example_notebook) = 10
   \<and> param_count (kernel1 (setup_two_kernels counting_rng counting_draw example_notebook)) = 10"
proof -
  let ?r1 = "batching_run counting_rng counting_draw
       (logged_observe counting_observe) (logged_observe_async counting_observe_async)
       (logged_get ready_get) example_notebook
       (0, [] :: (nat, nat, nat, nat, string) event list)"
  let ?r2 = "two_kernels_run counting_rng counting_draw
       (logged_observe_async counting_observe_async) example_notebook
       (0, [] :: (nat, nat, nat, nat, string) event list)"
  note t = shape_consistency_by_cell [where D = counting_rng and d = counting_draw
      and ob = counting_observe and oa = counting_observe_async and gz = ready_get
      and s = example_notebook and w = 0]
  have e1: "?r1 = (fst ?r1, fst (snd ?r1), fst (snd (snd ?r1)), snd (snd (snd ?r1)))" by simp
  have e2: "?r2 = (fst ?r2, fst (snd ?r2), fst (snd (snd ?r2)), snd (snd (snd ?r2)))" by simp
  from t have "list_all shape_ok (snd (snd (snd ?r1)))"
    using e1 by blast
  moreover from t have "list_all shape_ok (snd (snd (snd ?r2)))"
    using e2 by blast
  moreover from t [THEN conjunct2, THEN conjunct2, THEN conjunct1]
  have "n_parameters (setup_20q counting_rng counting_draw example_notebook) = 60
      \<and> param_count (kernel (setup_20q counting_rng counting_draw example_notebook)) = 60"
    by (simp add: Let_def setup_20q_fields)
  moreover from t [THEN conjunct2, THEN conjunct2, THEN conjunct2, THEN conjunct2]
  have "n_parameters (setup_two_kernels counting_rng counting_draw example_notebook) = 10
      \<and> param_count (kernel1 (setup_two_kernels counting_rng counting_draw example_notebook)) = 10"
    by (simp add: Let_def setup_two_kernels_fields)
  ultimately show ?thesis by blast
qed

text \<open>
  Claim C5 as stated fails on the notebook run top to bottom (counting generator and
  runtime, so that no call raises). The cell of lines 223 to 231 dispatches the
  10-qubit kernel, which reads 30 entries, with rows of the batches split from the
  20-qubit array, which have 60; and the array of the two-kernel cell has 500 rows of
  10 entries, \<open>n_qubits\<close> and not \<open>3 * n_qubits\<close>.
\<close>

theorem shape_consistency_counterexample:
  "case notebook_run counting_rng counting_draw (logged_observe counting_observe)
          (logged_observe_async counting_observe_async) (logged_get ready_get)
          example_notebook (0, [] :: (nat, nat, nat, nat, string) event list) of
     (exc, s, w, tr) \<Rightarrow>
       exc = None
       \<and> (\<exists>row q res. ObserveAsync (build_kernel 10) (SpinZ 0) row q res \<in> set tr
             \<and> length row = 60)
       \<and> param_count (build_kernel 10) = 30
       \<and> \<not> list_all shape_ok tr
       \<and> n_qubits s = 10 \<and> length (parameters s) = 500
       \<and> list_all (\<lambda>row. length row = 10) (parameters s)"
proof -
  let ?D = counting_rng and ?d = counting_draw
  let ?LO = "logged_observe counting_observe"
  let ?LA = "logged_observe_async counting_observe_async"
  let ?LG = "logged_get ready_get"
  let ?w0 = "(0 :: nat, [] :: (nat, nat, nat, nat, string) event list)"
  obtain s1 wl1 where
    c1: "scaling_cell ?D ?d ?LO example_notebook ?w0 = (None, s1, wl1)"
    using scaling_cell_counting by blast
  note f1 = scaling_cell_fields [OF c1]
  have len1: "length (parameters s1) = 1000" by (simp add: f1 uniform_shape)
  then obtain bs where sp: "np_split (parameters s1) 4 = Inr bs"
    by (auto simp: np_split_error)
  let ?s2 = "s1\<lparr>xi := bs\<rparr>"
  have c2: "split_cell s1 wl1 = (None, ?s2, wl1)" by (simp add: split_cell_def sp)
  obtain s3 wl3 where c3: "async_cell ?LA ?LG ?s2 wl1 = (None, s3, wl3)"
    using async_cell_counting by blast
  note f3 = async_cell_fields [OF c3]
  let ?s5 = "setup_two_kernels ?D ?d (setup_10q ?D ?d s3)"
  have k5: "kernel ?s5 = build_kernel 10" and h5: "h ?s5 = SpinZ 0" and x5: "xi ?s5 = bs"
    by (simp_all add: setup_two_kernels_fields setup_10q_fields f3)
  obtain s6 wl6 where c6: "async_cell ?LA ?LG ?s5 wl3 = (None, s6, wl6)"
    using async_cell_counting by blast
  note f6 = async_cell_fields [OF c6]
  obtain s7 wl7 where c7: "two_kernels_cell ?LA s6 wl6 = (None, s7, wl7)"
    using two_kernels_cell_counting by blast
  note f7 = two_kernels_cell_fields [OF c7]
  obtain w3 t3 where wl3: "wl3 = (w3, t3)" by (cases wl3)
  obtain w6 t6 where wl6: "wl6 = (w6, t6)" by (cases wl6)
  obtain w7 t7 where wl7: "wl7 = (w7, t7)" by (cases wl7)
  have run: "notebook_run ?D ?d ?LO ?LA ?LG example_notebook ?w0 = (None, s7, w7, t7)"
    by (simp add: notebook_run_def batching_run_def then_cell_def assign_cell_def
          c1 c2 c3 c6 c7 wl7)
  from np_split_batches(3) [OF sp] obtain b bs' where bs: "bs = b # bs'" by (cases bs) auto
  from np_split_batches(5) [OF sp, of b] len1 bs
  have lb: "length b = 250" and sub: "set b \<subseteq> set (parameters s1)" by simp_all
  from lb obtain row rows where b: "b = row # rows" by (cases b) auto
  from sub b have "row \<in> set (parameters s1)" by simp
  then have lrow: "length row = 60"
    using uniform_shape(2) [of row ?d "?D 13" 1000 60] by (simp add: f1)
  from async_cell_first_dispatch [OF c6 [unfolded wl3 wl6] x5 [unfolded bs] b]
  obtain res where "ObserveAsync (kernel ?s5) (h ?s5) row 0 res \<in> set t6" by blast
  moreover from two_kernels_cell_grows [OF c7 [unfolded wl6 wl7]]
  obtain new where "t7 = t6 @ new" by blast
  ultimately have ev: "ObserveAsync (build_kernel 10) (SpinZ 0) row 0 res \<in> set t7"
    by (simp add: k5 h5)
  have pc: "param_count (build_kernel 10) = 30" by (simp add: param_count_build_kernel)
  from ev lrow pc have bad: "\<not> list_all shape_ok t7"
    by (auto simp: list_all_iff intro!: bexI [of _ "ObserveAsync (build_kernel 10) (SpinZ 0) row 0 res"])
  have p7: "parameters s7 = uniform ?d (?D 13) (500, 10)" and q7: "n_qubits s7 = 10"
    by (simp_all add: f7 f6 setup_two_kernels_fields)
  have "length (parameters s7) = 500 \<and> list_all (\<lambda>row. length row = 10) (parameters s7)"
    by (simp add: p7 uniform_shape list_all_iff)
  with run ev lrow pc bad q7 show ?thesis by auto
qed

section \<open>The partition across device identifiers\<close>

lemma dispatched_observe_events:
  "dispatched (map (\<lambda>(x, y). Observe k hm x (Inr y)) (zip xs ys)) = []"
proof (induction xs arbitrary: ys)
  case Nil
  show ?case by simp
next
  case (Cons x xs)
  show ?case by (cases ys) (simp_all add: Cons.IH)
qed

lemma dispatched_observe_trace: "dispatched (call_trace (Observe k hm) xs ys exc) = []"
  by (simp add: call_trace_def dispatched_append dispatched_observe_events split: option.splits)

lemma scaling_cell_dispatched:
  assumes "scaling_cell D d (logged_observe ob) s (w, tr) = (exc, s', w', tr')"
  shows "dispatched tr' = dispatched tr"
  using assms
  by (auto simp: scaling_cell_def Let_def logged_observe_eq append_each_logged
        dispatched_append dispatched_observe_trace split: prod.splits option.splits)

lemma async_cell_dispatched_from:
  assumes "async_cell (logged_observe_async oa) (logged_get gz) s (w, tr) = (None, s', w', tr')"
  shows "dispatched tr' = dispatched tr @ planned_jobs (xi s)"
  using assms
proof (cases rule: async_cell_outcome)
  case (finished hs vs)
  then show ?thesis
    by (simp add: dispatched_append dispatched_dispatch_events dispatched_retrieve_events)
qed simp_all

lemma batching_run_partition:
  assumes run: "batching_run D d (logged_observe ob) (logged_observe_async oa) (logged_get gz)
                  s (w, []) = (None, s', w', tr)"
  shows "length (xi s') = 4" and "dispatched tr = planned_jobs (xi s')"
    and "snd ` set (dispatched tr) = {0..<length (xi s')}"
proof -
  from run [unfolded batching_run_def]
  have "length (xi s') = 4 \<and> dispatched tr = planned_jobs (xi s') \<and> (\<forall>b\<in>set (xi s'). b \<noteq> [])"
  proof (cases rule: then_cell_cases)
    case (continued s1 wl1)
    obtain w1 t1 where wl1: "wl1 = (w1, t1)" by (cases wl1)
    note c1 = continued(1) [unfolded wl1]
    note f1 = scaling_cell_fields [OF c1]
    from scaling_cell_dispatched [OF c1] have d1: "dispatched t1 = []" by simp
    have "length (parameters s1) = 1000" by (simp add: f1 uniform_shape)
    then have ne: "parameters s1 \<noteq> []" by auto
    from continued(2) show ?thesis
    proof (cases rule: then_cell_cases)
      case (continued s2 wl2)
      note f2 = split_cell_fields [OF continued(1)]
      from f2(5) have sp: "np_split (parameters s1) 4 = Inr (xi s2)" by simp
      from continued(2) f2(1) wl1
      have c3: "async_cell (logged_observe_async oa) (logged_get gz) s2 (w1, t1) = (None, s', w', tr)"
        by simp
      from async_cell_dispatched_from [OF c3] d1 async_cell_fields(4) [OF c3]
        np_split_batches(3) [OF sp] np_split_nonempty_batches [OF sp ne]
      show ?thesis by simp
    qed simp
  qed simp
  then show "length (xi s') = 4" and "dispatched tr = planned_jobs (xi s')"
    and "snd ` set (dispatched tr) = {0..<length (xi s')}"
    by (simp_all add: planned_jobs_id_set)
qed

lemma batching_run_counting:
  "\<exists>s' wl'. batching_run D d (logged_observe counting_observe)
      (logged_observe_async counting_observe_async) (logged_get ready_get) s wl = (None, s', wl')"
proof -
  obtain s1 wl1 where
    c1: "scaling_cell D d (logged_observe counting_observe) s wl = (None, s1, wl1)"
    using scaling_cell_counting by blast
  have "length (parameters s1) = 1000"
    by (simp add: scaling_cell_fields [OF c1] uniform_shape)
  then obtain bs where sp: "np_split (parameters s1) 4 = Inr bs"
    by (auto simp: np_split_error)
  obtain s3 wl3 where
    "async_cell (logged_observe_async counting_observe_async) (logged_get ready_get)
       (s1\<lparr>xi := bs\<rparr>) wl1 = (None, s3, wl3)"
    using async_cell_counting by blast
  with c1 sp show ?thesis
    by (simp add: batching_run_def then_cell_def split_cell_def)
qed

text \<open>
  Claim C6. The driver partitions the work across device identifiers. The dispatches
  the asynchronous cell makes are, in order, the planned jobs: every row of batch
  \<open>xi[i]\<close> with the device identifier \<open>i\<close> (a run stopped by an exception made the
  first of them). When the cell runs to its end the rows dispatched are the rows of
  the batches in order, all rows of batch \<open>i\<close> go to device \<open>i\<close>, and, no batch
  being empty, the device identifiers used are exactly \<open>0, ..., len(xi) - 1\<close>. In
  the notebook, where \<open>xi\<close> is the split of the 1000-row array, a run of the cells up
  to the first collection uses exactly the identifiers \<open>0, ..., len(xi) - 1\<close>, with
  \<open>len(xi) = 4\<close>.
\<close>

theorem device_identifiers_partition:
  "(\<forall>exc s' w' tr.
      async_cell (logged_observe_async oa) (logged_get gz) s (w, []) = (exc, s', w', tr) \<longrightarrow>
        dispatched tr = take (length (dispatched tr)) (planned_jobs (xi s))
        \<and> (exc = None \<longrightarrow>
              dispatched tr = planned_jobs (xi s)
              \<and> map fst (dispatched tr) = concat (xi s)
              \<and> map snd (dispatched tr)
                  = concat (map (\<lambda>i. replicate (length (xi s ! i)) i) [0..<length (xi s)])
              \<and> ((\<forall>b\<in>set (xi s). b \<noteq> []) \<longrightarrow>
                    snd ` set (dispatched tr) = {0..<length (xi s)})))
   \<and> (\<forall>s' w' tr.
      batching_run D d (logged_observe ob) (logged_observe_async oa) (logged_get gz) s (w, [])
        = (None, s', w', tr) \<longrightarrow>
        length (xi s') = 4
        \<and> dispatched tr = planned_jobs (xi s')
        \<and> snd ` set (dispatched tr) = {0..<length (xi s')})"
proof (intro conjI allI impI)
  fix exc s' w' tr
  assume run: "async_cell (logged_observe_async oa) (logged_get gz) s (w, []) = (exc, s', w', tr)"
  from async_cell_dispatched [OF run] obtain n where
    n: "n \<le> length (planned_jobs (xi s))" "dispatched tr = take n (planned_jobs (xi s))"
       "exc = None \<longrightarrow> n = length (planned_jobs (xi s))"
    by blast
  from n(1,2) show "dispatched tr = take (length (dispatched tr)) (planned_jobs (xi s))"
    by simp
  assume "exc = None"
  with n show full: "dispatched tr = planned_jobs (xi s)" by simp
  then show "map fst (dispatched tr) = concat (xi s)"
    and "map snd (dispatched tr)
          = concat (map (\<lambda>i. replicate (length (xi s ! i)) i) [0..<length (xi s)])"
    by (simp_all add: planned_jobs_rows planned_jobs_ids)
  assume "\<forall>b\<in>set (xi s). b \<noteq> []"
  then show "snd ` set (dispatched tr) = {0..<length (xi s)}"
    by (simp only: full planned_jobs_id_set)
next
  fix s' w' tr
  assume run: "batching_run D d (logged_observe ob) (logged_observe_async oa) (logged_get gz)
                 s (w, []) = (None, s', w', tr)"
  from batching_run_partition [OF run]
  show "length (xi s') = 4" and "dispatched tr = planned_jobs (xi s')"
    and "snd ` set (dispatched tr) = {0..<length (xi s')}" .
qed

text \<open>
  The example state: batch 0 has two rows, batch 1 has one. A run of the notebook's
  cells up to the first collection, with the counting generator and runtime, uses
  the devices 0, 1, 2, 3.
\<close>

theorem device_identifiers_partition_witness:
  "dispatched (snd (snd (snd (async_cell (logged_observe_async counting_observe_async)
       (logged_get ready_get) example_notebook
       (0, [] :: (nat, nat, nat, nat, string) event list)))))
     = [([1, 2, 3], 0), ([4, 5, 6], 0), ([7, 8, 9], 1)]
   \<and> snd ` set (dispatched (snd (snd (snd (batching_run counting_rng counting_draw
       (logged_observe counting_observe) (logged_observe_async counting_observe_async)
       (logged_get ready_get) example_notebook
       (0, [] :: (nat, nat, nat, nat, string) event list))))))
     = {0, 1, 2, 3}"
proof -
  let ?w0 = "(0 :: nat, [] :: (nat, nat, nat, nat, string) event list)"
  let ?run1 = "async_cell (logged_observe_async counting_observe_async)
       (logged_get ready_get) example_notebook ?w0"
  let ?run2 = "batching_run counting_rng counting_draw
       (logged_observe counting_observe) (logged_observe_async counting_observe_async)
       (logged_get ready_get) example_notebook ?w0"
  note t = device_identifiers_partition [where oa = counting_observe_async and gz = ready_get
      and ob = counting_observe and D = counting_rng and d = counting_draw
      and s = example_notebook and w = 0]
  have e1: "fst ?run1 = None"
    by (simp add: async_cell_def example_notebook_def counting_observe_async_def ready_get_def
          logged_observe_async_def logged_get_def logged_def)
  have e2: "fst ?run2 = None"
    using batching_run_counting [of counting_rng counting_draw example_notebook ?w0] by auto
  note r1 = run_collapse [OF e1] and r2 = run_collapse [OF e2]
  from t [THEN conjunct1, rule_format, OF r1]
  have "dispatched (snd (snd (snd ?run1))) = planned_jobs (xi example_notebook)" by simp
  then have "dispatched (snd (snd (snd ?run1))) = [([1, 2, 3], 0), ([4, 5, 6], 0), ([7, 8, 9], 1)]"
    by (simp add: planned_jobs_def example_notebook_def upt_rec)
  moreover have "snd ` set (dispatched (snd (snd (snd ?run2)))) = {0..<4}"
  proof -
    note c = t [THEN conjunct2, rule_format, OF r2]
    from c have l: "length (xi (fst (snd ?run2))) = 4" by (rule conjunct1)
    from c have "snd ` set (dispatched (snd (snd (snd ?run2))))
                   = {0..<length (xi (fst (snd ?run2)))}"
      by blast
    then show ?thesis unfolding l .
  qed
  moreover have "{0..<4::nat} = {0, 1, 2, 3}" by auto
  ultimately show ?thesis by simp
qed

section \<open>The batching cell on the array of the 20-qubit cell\<close>

lemma split_cell_setup_20q:
  "\<exists>batches. split_cell (setup_20q D d s) w
        = (None :: 'e exn option, (setup_20q D d s)\<lparr>xi := batches\<rparr>, w)
      \<and> np_split (parameters (setup_20q D d s)) 4 = Inr batches"
proof -
  have "length (parameters (setup_20q D d s)) = 1000"
    by (simp add: setup_20q_fields uniform_shape)
  then obtain batches where "np_split (parameters (setup_20q D d s)) 4 = Inr batches"
    by (auto simp: np_split_error)
  then show ?thesis by (auto simp: split_cell_def)
qed

text \<open>
  Claim C1. Concatenating, in order, the batches of \<open>np.split(parameters, 4)\<close> gives
  back the parameter array, whenever the split returns; it returns for an array of
  1000 rows; and for the array of the 20-qubit cell the batching cell assigns batches
  \<open>xi\<close> whose concatenation is \<open>parameters\<close>.
\<close>

theorem split_concatenate_roundtrip:
  "(\<forall>batches. np_split ary 4 = Inr batches \<longrightarrow> concatenate batches = Inr ary)
   \<and> (length ary = 1000 \<longrightarrow> (\<exists>batches. np_split ary 4 = Inr batches))
   \<and> (\<exists>batches.
        split_cell (setup_20q D d s) w
          = (None :: 'e exn option, (setup_20q D d s)\<lparr>xi := batches\<rparr>, w)
        \<and> concatenate batches = Inr (parameters (setup_20q D d s)))"
proof -
  from split_cell_setup_20q [of D d s w] obtain batches where
    c: "split_cell (setup_20q D d s) w
          = (None :: 'e exn option, (setup_20q D d s)\<lparr>xi := batches\<rparr>, w)"
    and sp: "np_split (parameters (setup_20q D d s)) 4 = Inr batches"
    by blast
  from sp have "concatenate batches = Inr (parameters (setup_20q D d s))"
    using np_split_concatenate [of "parameters (setup_20q D d s)"] by blast
  with c show ?thesis
    using np_split_concatenate [of ary] by blast
qed

text \<open>
  An array of 1000 rows, one of 8 rows with its four batches written out, and the
  20-qubit cell with the counting generator.
\<close>

theorem split_concatenate_roundtrip_witness:
  "(\<exists>batches. np_split (replicate 1000 [0::real, 1]) 4 = Inr batches
        \<and> concatenate batches = Inr (replicate 1000 [0, 1]))
   \<and> np_split [[1::nat], [2], [3], [4], [5], [6], [7], [8]] 4
        = Inr [[[1], [2]], [[3], [4]], [[5], [6]], [[7], [8]]]
   \<and> concatenate [[[1::nat], [2]], [[3], [4]], [[5], [6]], [[7], [8]]]
        = Inr [[1], [2], [3], [4], [5], [6], [7], [8]]
   \<and> (\<exists>batches.
        split_cell (setup_20q counting_rng counting_draw example_notebook) (0::nat)
          = (None :: string exn option,
             (setup_20q counting_rng counting_draw example_notebook)\<lparr>xi := batches\<rparr>, 0)
        \<and> concatenate batches
            = Inr (parameters (setup_20q counting_rng counting_draw example_notebook)))"
proof -
  have small: "np_split [[1::nat], [2], [3], [4], [5], [6], [7], [8]] 4
        = Inr [[[1], [2]], [[3], [4]], [[5], [6]], [[7], [8]]]"
    by code_simp
  note t1 = split_concatenate_roundtrip [where ary = "replicate 1000 [0::real, 1]"]
  note t2 = split_concatenate_roundtrip [where ary = "[[1::nat], [2], [3], [4], [5], [6], [7], [8]]"
      and D = counting_rng and d = counting_draw and s = example_notebook and w = "0::nat"]
  have "\<exists>batches. np_split (replicate 1000 [0::real, 1]) 4 = Inr batches
        \<and> concatenate batches = Inr (replicate 1000 [0, 1])"
    using t1 [THEN conjunct1] t1 [THEN conjunct2, THEN conjunct1] by auto
  moreover have "concatenate [[[1::nat], [2]], [[3], [4]], [[5], [6]], [[7], [8]]]
        = Inr [[1], [2], [3], [4], [5], [6], [7], [8]]"
    using t2 [THEN conjunct1] small by blast
  moreover note small t2 [THEN conjunct2, THEN conjunct2]
  ultimately show ?thesis by blast
qed

text \<open>
  Claim C8. \<open>np.split(parameters, 4)\<close> returns exactly when the number of rows is
  divisible by 4 and raises \<open>ValueError\<close> otherwise; when it returns, there are 4
  batches of \<open>n_samples / 4\<close> rows each, every row a row of the array (so with its
  \<open>n_parameters\<close> columns). For 1000 rows each batch has 250 rows; the batching
  cell after the 20-qubit cell does not raise and assigns 4 batches of 250 rows of
  60 entries.
\<close>

theorem np_split_equal_division:
  "((\<exists>batches. np_split ary 4 = Inr batches) \<longleftrightarrow> 4 dvd length ary)
   \<and> (\<not> 4 dvd length ary \<longrightarrow> np_split ary 4 = Inl ValueError)
   \<and> (\<forall>batches. np_split ary 4 = Inr batches \<longrightarrow>
         length batches = 4
         \<and> (\<forall>b\<in>set batches. length b = length ary div 4
               \<and> (\<forall>m. (\<forall>row\<in>set ary. length row = m) \<longrightarrow> (\<forall>row\<in>set b. length row = m))))
   \<and> (length ary = 1000 \<longrightarrow>
         (\<exists>batches. np_split ary 4 = Inr batches \<and> (\<forall>b\<in>set batches. length b = 250)))
   \<and> (\<forall>(exc :: 'e exn option) s' w'. split_cell (setup_20q D d s) w = (exc, s', w') \<longrightarrow>
         exc = None \<and> length (xi s') = 4
         \<and> (\<forall>b\<in>set (xi s'). length b = 250 \<and> (\<forall>row\<in>set b. length row = 60)))"
proof -
  let ?p = "parameters (setup_20q D d s)"
  have notebook: "exc = None \<and> length (xi s') = 4
         \<and> (\<forall>b\<in>set (xi s'). length b = 250 \<and> (\<forall>row\<in>set b. length row = 60))"
    if run: "split_cell (setup_20q D d s) w = (exc, s', w')"
    for exc :: "'e exn option" and s' w'
  proof -
    from split_cell_setup_20q [of D d s w, where ?'e = 'e] run obtain batches where
      e: "exc = None" and x: "xi s' = batches" and sp: "np_split ?p 4 = Inr batches"
      by auto
    have l: "length ?p = 1000" and r: "\<forall>row\<in>set ?p. length row = 60"
      by (simp_all add: setup_20q_fields uniform_shape)
    from np_split_four [of ?p] sp l
    have "length batches = 4 \<and> (\<forall>b\<in>set batches. length b = 250)" by auto
    moreover from np_split_four [of ?p] sp r
    have "\<forall>b\<in>set batches. \<forall>row\<in>set b. length row = 60" by blast
    ultimately show ?thesis using e x by simp
  qed
  show ?thesis
    using np_split_four [of ary] notebook by blast
qed

text \<open>1000 rows of 60 columns split; 6 rows do not; the 20-qubit cell's array splits.\<close>

theorem np_split_equal_division_witness:
  "(\<exists>batches. np_split (replicate 1000 (replicate 60 (0::real))) 4 = Inr batches
       \<and> length batches = 4
       \<and> list_all (\<lambda>b. length b = 250 \<and> list_all (\<lambda>row. length row = 60) b) batches)
   \<and> np_split [[1::nat], [2], [3], [4], [5], [6]] 4 = Inl ValueError
   \<and> fst (split_cell (setup_20q counting_rng counting_draw example_notebook) (0::nat))
        = (None :: string exn option)
   \<and> list_all (\<lambda>b. length b = 250 \<and> list_all (\<lambda>row. length row = 60) b)
        (xi (fst (snd (split_cell (setup_20q counting_rng counting_draw example_notebook) (0::nat)
                  :: string exn option \<times> (nat, nat, nat, nat) notebook \<times> nat))))"
proof -
  let ?ary = "replicate 1000 (replicate 60 (0::real))"
  let ?six = "[[1::nat], [2], [3], [4], [5], [6]]"
  let ?run = "split_cell (setup_20q counting_rng counting_draw example_notebook) (0::nat)
                :: string exn option \<times> (nat, nat, nat, nat) notebook \<times> nat"
  note t = np_split_equal_division [where ary = ?ary]
  note u = np_split_equal_division [where ary = ?six and D = counting_rng
      and d = counting_draw and s = example_notebook and w = "0::nat"]
  have d: "4 dvd length ?ary" and r: "\<forall>row\<in>set ?ary. length row = 60" by simp_all
  have q: "length ?ary div 4 = 250" by simp
  from t [THEN conjunct1] d obtain batches where
    a: "np_split ?ary 4 = Inr batches" by blast
  from t [THEN conjunct2, THEN conjunct2, THEN conjunct1] a
  have "length batches = 4 \<and> (\<forall>b\<in>set batches. length b = length ?ary div 4
          \<and> (\<forall>m. (\<forall>row\<in>set ?ary. length row = m) \<longrightarrow> (\<forall>row\<in>set b. length row = m)))"
    by blast
  with r have "length batches = 4 \<and> (\<forall>b\<in>set batches. length b = 250 \<and> (\<forall>row\<in>set b. length row = 60))"
    unfolding q by blast
  with a have 1: "\<exists>batches. np_split ?ary 4 = Inr batches
       \<and> length batches = 4
       \<and> list_all (\<lambda>b. length b = 250 \<and> list_all (\<lambda>row. length row = 60) b) batches"
    by (auto simp: list_all_iff)
  have "\<not> 4 dvd length ?six"
  proof -
    have "length ?six = 6" by simp
    moreover have "\<not> (4::nat) dvd 6" by presburger
    ultimately show ?thesis by (simp only: not_False_eq_True)
  qed
  with u [THEN conjunct2, THEN conjunct1] have 2: "np_split ?six 4 = Inl ValueError" by blast
  have e: "?run = (fst ?run, fst (snd ?run), snd (snd ?run))" by simp
  from u [THEN conjunct2, THEN conjunct2, THEN conjunct2, THEN conjunct2, rule_format, OF e]
  have 3: "fst ?run = None
      \<and> list_all (\<lambda>b. length b = 250 \<and> list_all (\<lambda>row. length row = 60) b) (xi (fst (snd ?run)))"
    by (simp add: list_all_iff)
  from 1 2 3 show ?thesis by blast
qed

end
